theory Spec2Isabelle
  imports Complex_Main
begin

section \<open>Effects\<close>

text \<open>
  An asynchronous JavaScript function that may throw is a function from the state of the
  world before the call to its settled outcome and the state after it:
  \<open>Inl error\<close> is a rejected promise, \<open>Inr value\<close> a resolved one. The requests of one
  pipeline run are awaited one after the other, so one state is threaded through them.
\<close>

type_synonym ('s, 'e, 'a) async = "'s \<Rightarrow> ('e + 'a) \<times> 's"

section \<open>utils/retry.js\<close>

text \<open>
  The loop of \<open>retryOnCondition\<close> leaves through \<open>return\<close> or \<open>throw\<close>; when its
  condition \<open>attempt <= maxRetries\<close> is false on entry the function ends without either
  and the promise resolves to \<open>undefined\<close>.
\<close>

datatype ('e, 'a) settled = Resolved 'a | Rejected 'e | ResolvedUndefined

function retryOnCondition_from ::
  "('s, 'e, 'a) async \<Rightarrow> ('e \<Rightarrow> 's \<Rightarrow> bool \<times> 's) \<Rightarrow> nat \<Rightarrow> nat \<Rightarrow> 's \<Rightarrow> ('e, 'a) settled \<times> 's"
where
  "retryOnCondition_from fn shouldRetry maxRetries attempt s =
     (if attempt \<le> maxRetries then
        (case fn s of
           (Inr result, s1) \<Rightarrow> (Resolved result, s1)
         | (Inl error, s1) \<Rightarrow>
             if attempt = maxRetries then (Rejected error, s1)
             else (case shouldRetry error s1 of
                     (False, s2) \<Rightarrow> (Rejected error, s2)
                   | (True, s2) \<Rightarrow> retryOnCondition_from fn shouldRetry maxRetries (attempt + 1) s2))
      else (ResolvedUndefined, s))"
  by pat_completeness auto
termination
  by (relation "measure (\<lambda>(fn, shouldRetry, maxRetries, attempt, s). Suc maxRetries - attempt)") auto

definition retryOnCondition ::
  "('s, 'e, 'a) async \<Rightarrow> ('e \<Rightarrow> 's \<Rightarrow> bool \<times> 's) \<Rightarrow> nat \<Rightarrow> 's \<Rightarrow> ('e, 'a) settled \<times> 's"
where
  "retryOnCondition fn shouldRetry maxRetries = retryOnCondition_from fn shouldRetry maxRetries 0"

text \<open>
  Test doubles for counting invocations: the state of the world is the pair of the number
  of times the operation and the predicate have been called.
\<close>

record calls =
  opCalls :: nat
  predCalls :: nat

definition alwaysFails :: "'e \<Rightarrow> (calls, 'e, 'a) async" where
  "alwaysFails e s = (Inl e, s\<lparr>opCalls := opCalls s + 1\<rparr>)"

definition trueTimes :: "nat \<Rightarrow> 'e \<Rightarrow> calls \<Rightarrow> bool \<times> calls" where
  "trueTimes k e s = (predCalls s < k, s\<lparr>predCalls := predCalls s + 1\<rparr>)"

text \<open>Any operation, with its invocations counted in the first component of the state.\<close>

definition counted :: "('s, 'e, 'a) async \<Rightarrow> (nat \<times> 's, 'e, 'a) async" where
  "counted fn = (\<lambda>(n, s). case fn s of (r, s1) \<Rightarrow> (r, (n + 1, s1)))"

definition uncounted :: "('e \<Rightarrow> 's \<Rightarrow> bool \<times> 's) \<Rightarrow> 'e \<Rightarrow> nat \<times> 's \<Rightarrow> bool \<times> nat \<times> 's" where
  "uncounted p e = (\<lambda>(n, s). case p e s of (b, s1) \<Rightarrow> (b, (n, s1)))"

section \<open>utils/circuitBreaker.js\<close>

datatype cb_state = CLOSED | OPEN | HALF_OPEN

record CircuitBreaker =
  failureThreshold :: nat
  resetTimeout :: int
  state :: cb_state
  failureCount :: nat
  nextAttempt :: int

record cb_options =
  opt_failureThreshold :: "nat option"
  opt_resetTimeout :: "int option"

text \<open>The constructor; \<open>x || d\<close> takes the default for a missing or zero option.\<close>

definition new_CircuitBreaker :: "cb_options \<Rightarrow> int \<Rightarrow> CircuitBreaker" where
  "new_CircuitBreaker options now =
     \<lparr> failureThreshold = (case opt_failureThreshold options of None \<Rightarrow> 5 | Some n \<Rightarrow> if n = 0 then 5 else n),
       resetTimeout = (case opt_resetTimeout options of None \<Rightarrow> 60000 | Some n \<Rightarrow> if n = 0 then 60000 else n),
       state = CLOSED,
       failureCount = 0,
       nextAttempt = now \<rparr>"

definition onSuccess :: "CircuitBreaker \<Rightarrow> CircuitBreaker" where
  "onSuccess cb = cb\<lparr>failureCount := 0, state := CLOSED\<rparr>"

text \<open>\<open>Date.now()\<close> is a read of the world's clock: \<open>now s\<close> is the time and the next state.\<close>

definition onFailure :: "('s \<Rightarrow> int \<times> 's) \<Rightarrow> CircuitBreaker \<Rightarrow> 's \<Rightarrow> CircuitBreaker \<times> 's" where
  "onFailure now cb s =
     (let cb1 = cb\<lparr>failureCount := failureCount cb + 1\<rparr> in
      if failureCount cb1 \<ge> failureThreshold cb1 then
        (case now s of (t, s1) \<Rightarrow> (cb1\<lparr>state := OPEN, nextAttempt := t + resetTimeout cb1\<rparr>, s1))
      else (cb1, s))"

datatype 'e cb_error = CircuitOpen | OperationError 'e

text \<open>
  \<open>execute\<close>: the breaker is the object's own mutable state, passed in and returned.
  \<open>CircuitOpen\<close> is the error \<open>Circuit breaker is OPEN. Service temporarily unavailable.\<close>
\<close>

definition execute ::
  "('s \<Rightarrow> int \<times> 's) \<Rightarrow> ('s, 'e, 'a) async \<Rightarrow> CircuitBreaker \<Rightarrow> 's \<Rightarrow> ('e cb_error + 'a) \<times> CircuitBreaker \<times> 's"
where
  "execute now fn cb s =
     (case (if state cb = OPEN then
              (case now s of (t, s1) \<Rightarrow>
                 if t < nextAttempt cb then Inl s1 else Inr (cb\<lparr>state := HALF_OPEN\<rparr>, s1))
            else Inr (cb, s)) of
        Inl s1 \<Rightarrow> (Inl CircuitOpen, cb, s1)
      | Inr (cb1, s1) \<Rightarrow>
          (case fn s1 of
             (Inr result, s2) \<Rightarrow> (Inr result, onSuccess cb1, s2)
           | (Inl error, s2) \<Rightarrow>
               (case onFailure now cb1 s2 of (cb2, s3) \<Rightarrow> (Inl (OperationError error), cb2, s3))))"

text \<open>The breaker and the world after \<open>n\<close> calls of \<open>execute\<close> in a row.\<close>

fun executeTimes ::
  "nat \<Rightarrow> ('s \<Rightarrow> int \<times> 's) \<Rightarrow> ('s, 'e, 'a) async \<Rightarrow> CircuitBreaker \<Rightarrow> 's \<Rightarrow> CircuitBreaker \<times> 's"
where
  "executeTimes 0 now fn cb s = (cb, s)"
| "executeTimes (Suc n) now fn cb s =
     (case execute now fn cb s of (r, cb1, s1) \<Rightarrow> executeTimes n now fn cb1 s1)"

section \<open>JavaScript strings and values\<close>

text \<open>
  A JavaScript string is the list of its UTF-16 code units; \<open>length\<close>, \<open>substring\<close> and the
  regular expressions of the source (none has the \<open>u\<close> flag) all count code units.
  \<open>str\<close> turns an ASCII literal of the source into such a list.
\<close>

type_synonym jsstring = "nat list"

definition str :: "string \<Rightarrow> jsstring" where
  "str s = map of_char s"

text \<open>
  The class \<open>\s\<close>, which is also what \<open>trim\<close> strips: tab, line feed, vertical tab, form
  feed, carriage return, space, U+00A0, U+1680, U+2000 to U+200A, U+2028, U+2029, U+202F,
  U+205F, U+3000 and U+FEFF.
\<close>

definition isSpace :: "nat \<Rightarrow> bool" where
  "isSpace c \<longleftrightarrow>
     c = 32 \<or> (9 \<le> c \<and> c \<le> 13) \<or> c = 160 \<or> c = 5760 \<or> (8192 \<le> c \<and> c \<le> 8202) \<or>
     c = 8232 \<or> c = 8233 \<or> c = 8239 \<or> c = 8287 \<or> c = 12288 \<or> c = 65279"

text \<open>The class \<open>\w\<close>: \<open>[A-Za-z0-9_]\<close>.\<close>

definition isWordChar :: "nat \<Rightarrow> bool" where
  "isWordChar c \<longleftrightarrow> (97 \<le> c \<and> c \<le> 122) \<or> (65 \<le> c \<and> c \<le> 90) \<or> (48 \<le> c \<and> c \<le> 57) \<or> c = 95"

text \<open>The class \<open>[.!?]\<close>.\<close>

definition isSentenceEnd :: "nat \<Rightarrow> bool" where
  "isSentenceEnd c \<longleftrightarrow> c = 46 \<or> c = 33 \<or> c = 63"

definition trim :: "jsstring \<Rightarrow> jsstring" where
  "trim s = rev (dropWhile isSpace (rev (dropWhile isSpace s)))"

text \<open>
  \<open>s.split(/[c]+/)\<close> for a character class: the pieces between the maximal runs of
  separators, with an empty first or last piece when the string starts or ends with one.
\<close>

function split_runs :: "(nat \<Rightarrow> bool) \<Rightarrow> jsstring \<Rightarrow> jsstring list" where
  "split_runs sep [] = [[]]"
| "split_runs sep (c # cs) =
     (if sep c then [] # split_runs sep (dropWhile sep cs)
      else (case split_runs sep cs of w # ws \<Rightarrow> (c # w) # ws | [] \<Rightarrow> [[c]]))"
  by pat_completeness auto
termination
  by (relation "measure (\<lambda>(sep, s). length s)") (auto simp: length_dropWhile_le le_imp_less_Suc)

text \<open>\<open>s.split(/[c]/)\<close> and \<open>s.split('c')\<close>: every separator splits.\<close>

fun split_each :: "(nat \<Rightarrow> bool) \<Rightarrow> jsstring \<Rightarrow> jsstring list" where
  "split_each sep [] = [[]]"
| "split_each sep (c # cs) =
     (if sep c then [] # split_each sep cs
      else (case split_each sep cs of w # ws \<Rightarrow> (c # w) # ws | [] \<Rightarrow> [[c]]))"

fun join :: "jsstring \<Rightarrow> jsstring list \<Rightarrow> jsstring" where
  "join sep [] = []"
| "join sep [x] = x"
| "join sep (x # y # ys) = x @ sep @ join sep (y # ys)"

fun startsWith :: "jsstring \<Rightarrow> jsstring \<Rightarrow> bool" where
  "startsWith s [] = True"
| "startsWith [] (d # ds) = False"
| "startsWith (c # cs) (d # ds) = (c = d \<and> startsWith cs ds)"

fun includesStr :: "jsstring \<Rightarrow> jsstring \<Rightarrow> bool" where
  "includesStr [] t = (t = [])"
| "includesStr (c # cs) t = (startsWith (c # cs) t \<or> includesStr cs t)"

text \<open>\<open>s.match(/[.!?]$/)\<close>: without the \<open>m\<close> flag \<open>$\<close> is the end of the string.\<close>

definition endsSentence :: "jsstring \<Rightarrow> bool" where
  "endsSentence s \<longleftrightarrow> s \<noteq> [] \<and> isSentenceEnd (last s)"

text \<open>\<open>s.replace(/\s+/g, ' ')\<close>\<close>

function replace_spaces :: "jsstring \<Rightarrow> jsstring" where
  "replace_spaces [] = []"
| "replace_spaces (c # cs) =
     (if isSpace c then 32 # replace_spaces (dropWhile isSpace cs) else c # replace_spaces cs)"
  by pat_completeness auto
termination
  by (relation "measure length") (auto simp: length_dropWhile_le le_imp_less_Suc)

text \<open>
  \<open>s.replace(/\.\s*\./g, '.')\<close>: a full stop, any white space and a full stop become one
  full stop, and the scan goes on after the second one.
\<close>

function replace_dots :: "jsstring \<Rightarrow> jsstring" where
  "replace_dots [] = []"
| "replace_dots (c # cs) =
     (if c = 46 \<and> dropWhile isSpace cs \<noteq> [] \<and> hd (dropWhile isSpace cs) = 46
      then 46 # replace_dots (tl (dropWhile isSpace cs))
      else c # replace_dots cs)"
  by pat_completeness auto
termination
proof (relation "measure length")
  show "wf (measure length)" by simp
next
  fix c :: nat and cs :: "nat list"
  assume "c = 46 \<and> dropWhile isSpace cs \<noteq> [] \<and> hd (dropWhile isSpace cs) = 46"
  have "length (tl (dropWhile isSpace cs)) \<le> length (dropWhile isSpace cs)"
    by simp
  also have "\<dots> \<le> length cs"
    by (rule length_dropWhile_le)
  finally show "(tl (dropWhile isSpace cs), c # cs) \<in> measure length" by simp
next
  fix c :: nat and cs :: "nat list"
  show "(cs, c # cs) \<in> measure length" by simp
qed

text \<open>
  The part of a run of white space up to and with its last line feed (empty when it has
  none): what a greedy \<open>\s*\<close> followed by \<open>\n\<close> matches of the run.
\<close>

definition upto_last_newline :: "jsstring \<Rightarrow> jsstring" where
  "upto_last_newline run = rev (dropWhile (\<lambda>c. c \<noteq> 10) (rev run))"

text \<open>\<open>s.split(/\n\s*\n/)\<close>\<close>

function split_paragraphs :: "jsstring \<Rightarrow> jsstring list" where
  "split_paragraphs [] = [[]]"
| "split_paragraphs (c # cs) =
     (if c = 10 \<and> upto_last_newline (takeWhile isSpace cs) \<noteq> []
      then [] # split_paragraphs (drop (length (upto_last_newline (takeWhile isSpace cs))) cs)
      else (case split_paragraphs cs of w # ws \<Rightarrow> (c # w) # ws | [] \<Rightarrow> [[c]]))"
  by pat_completeness auto
termination
  by (relation "measure length") auto

text \<open>
  \<open>s.replace(/\n\s*\n\s*\n/g, '\n\n')\<close>: a line feed followed by white space with at least
  two more line feeds, up to the last of them.
\<close>

function replace_blank_lines :: "jsstring \<Rightarrow> jsstring" where
  "replace_blank_lines [] = []"
| "replace_blank_lines (c # cs) =
     (if c = 10 \<and> 2 \<le> count_list (takeWhile isSpace cs) 10
      then 10 # 10 # replace_blank_lines (drop (length (upto_last_newline (takeWhile isSpace cs))) cs)
      else c # replace_blank_lines cs)"
  by pat_completeness auto
termination
  by (relation "measure length") auto

text \<open>
  \<open>s.match(/\[[\s\S]*\]/)\<close>: from the first opening bracket to the last closing bracket
  after it.
\<close>

definition match_brackets :: "jsstring \<Rightarrow> jsstring option" where
  "match_brackets s =
     (case dropWhile (\<lambda>c. c \<noteq> 91) s of
        [] \<Rightarrow> None
      | c # cs \<Rightarrow>
          if 93 \<in> set cs then Some (c # rev (dropWhile (\<lambda>c. c \<noteq> 93) (rev cs))) else None)"

text \<open>
  Values as \<open>JSON.parse\<close> and the HTTP client deliver them. A number only ever meets a
  test for truth in this code.
\<close>

datatype jsval =
    JUndefined
  | JNull
  | JBool bool
  | JNum rat
  | JStr jsstring
  | JArr "jsval list"
  | JObj "(jsstring \<times> jsval) list"

fun truthy :: "jsval \<Rightarrow> bool" where
  "truthy JUndefined = False"
| "truthy JNull = False"
| "truthy (JBool b) = b"
| "truthy (JNum x) = (x \<noteq> 0)"
| "truthy (JStr s) = (s \<noteq> [])"
| "truthy (JArr xs) = True"
| "truthy (JObj kvs) = True"

fun isArray :: "jsval \<Rightarrow> bool" where
  "isArray (JArr xs) = True"
| "isArray v = False"

fun nullish :: "jsval \<Rightarrow> bool" where
  "nullish JUndefined = True"
| "nullish JNull = True"
| "nullish v = False"

text \<open>
  \<open>v.name\<close> for a value that is neither \<open>null\<close> nor \<open>undefined\<close> and a name that no
  prototype defines (\<open>error\<close>, \<open>summary_text\<close>, \<open>generated_text\<close>, \<open>question\<close>,
  \<open>options\<close>, \<open>answer\<close>): the own property of an object, \<open>undefined\<close> otherwise.
\<close>

fun field :: "jsval \<Rightarrow> jsstring \<Rightarrow> jsval" where
  "field (JObj kvs) name = (case map_of kvs name of Some v \<Rightarrow> v | None \<Rightarrow> JUndefined)"
| "field v name = JUndefined"

text \<open>\<open>v?.name\<close>\<close>

definition optField :: "jsval \<Rightarrow> jsstring \<Rightarrow> jsval" where
  "optField v name = (if nullish v then JUndefined else field v name)"

text \<open>\<open>v[0]\<close> for a value that is neither \<open>null\<close> nor \<open>undefined\<close>, and \<open>v?.[0]\<close>.\<close>

fun first :: "jsval \<Rightarrow> jsval" where
  "first (JArr xs) = (case xs of [] \<Rightarrow> JUndefined | x # _ \<Rightarrow> x)"
| "first (JStr s) = (case s of [] \<Rightarrow> JUndefined | c # _ \<Rightarrow> JStr [c])"
| "first (JObj kvs) = (case map_of kvs (str ''0'') of Some v \<Rightarrow> v | None \<Rightarrow> JUndefined)"
| "first v = JUndefined"

definition optFirst :: "jsval \<Rightarrow> jsval" where
  "optFirst v = (if nullish v then JUndefined else first v)"

text \<open>
  Errors. The code reads \<open>error.response?.status\<close> and \<open>error.code\<close> to decide what to do;
  \<open>error.message\<close> only reaches the log, so messages built from values that are not
  strings are kept symbolic.
\<close>

datatype message =
    Text jsstring
  | ApiError nat jsstring
  | ErrorOf jsval
  | NetworkError message
  | EngineMessage

record js_error =
  response :: "nat option"
  code :: "jsstring option"
  message :: message

definition Error :: "message \<Rightarrow> js_error" where
  "Error m = \<lparr>response = None, code = None, message = m\<rparr>"

definition TypeError :: js_error where
  "TypeError = Error EngineMessage"

text \<open>\<open>v.name\<close> throws a \<open>TypeError\<close> on \<open>null\<close> and \<open>undefined\<close>.\<close>

definition getField :: "jsval \<Rightarrow> jsstring \<Rightarrow> js_error + jsval" where
  "getField v name = (if nullish v then Inl TypeError else Inr (field v name))"

section \<open>services/pdf.service.js\<close>



text \<open>
  The loop of \<open>chunkText\<close> adds \<open>wordsPerChunk\<close> to \<open>i\<close> until \<open>i\<close> reaches the number of
  words: with \<open>wordsPerChunk = 0\<close> it never ends, which is the value \<open>None\<close>.
  \<open>words.slice(i, i + wordsPerChunk)\<close> is \<open>take wordsPerChunk (drop i words)\<close>.
\<close>

partial_function (option) chunkText_loop ::
  "jsstring list \<Rightarrow> nat \<Rightarrow> nat \<Rightarrow> jsstring list \<Rightarrow> jsstring list option"
where
  "chunkText_loop words wordsPerChunk i chunks =
     (if i < length words
      then chunkText_loop words wordsPerChunk (i + wordsPerChunk)
             (chunks @ [join (str '' '') (take wordsPerChunk (drop i words))])
      else Some chunks)"

definition chunkText :: "jsstring \<Rightarrow> nat \<Rightarrow> (js_error + jsstring list) option" where
  "chunkText text wordsPerChunk =
     (if text = [] \<or> length (trim text) = 0 then Some (Inl (Error (Text (str ''Text is empty''))))
      else
        (let words = split_runs isSpace text
         in if length words \<le> wordsPerChunk then Some (Inr [text])
            else map_option Inr (chunkText_loop words wordsPerChunk 0 [])))"

section \<open>services/ai.service.js: the model invoker\<close>

definition HF_API_URL :: jsstring where
  "HF_API_URL = str ''https://router.huggingface.co/models''"

record hf_parameters =
  max_length :: nat
  min_length :: "nat option"
  do_sample :: bool
  temperature :: rat
  top_p :: "rat option"

record hf_request =
  inputs :: jsstring
  parameters :: hf_parameters

text \<open>
  What the network does with one request: an HTTP response with its status, status text
  and body, or no response at all, with the error code and message of the HTTP client
  (\<open>ECONNABORTED\<close> for its timeout).
\<close>

datatype http_outcome =
    Response nat jsstring jsval
  | NoResponse "jsstring option" message

record http_response =
  status :: nat
  statusText :: jsstring
  data :: jsval

text \<open>
  The host of the program: the two built-in functions that are taken as parameters
  (\<open>String.prototype.toLowerCase\<close>, \<open>JSON.parse\<close> with \<open>None\<close> for a \<open>SyntaxError\<close>), the
  clock and the network, the last two acting on a state \<open>'w\<close> of the outside world.
\<close>

record 'w runtime =
  toLowerCase :: "jsstring \<Rightarrow> jsstring"
  JSON_parse :: "jsstring \<Rightarrow> jsval option"
  Date_now :: "'w \<Rightarrow> int \<times> 'w"
  send :: "jsstring \<Rightarrow> hf_request \<Rightarrow> 'w \<Rightarrow> http_outcome \<times> 'w"

text \<open>
  \<open>hfAxios.post\<close>: the client is created with \<open>validateStatus: (status) => status < 500\<close>,
  so it resolves with every response below 500 and rejects with an error that carries the
  response otherwise. Of that error the code reads only \<open>response\<close>.
\<close>

definition hfAxios_post ::
  "'w runtime \<Rightarrow> jsstring \<Rightarrow> hf_request \<Rightarrow> ('w, js_error, http_response) async"
where
  "hfAxios_post rt url body w =
     (case send rt url body w of
        (Response st txt d, w1) \<Rightarrow>
          if st < 500 then (Inr \<lparr>status = st, statusText = txt, data = d\<rparr>, w1)
          else (Inl \<lparr>response = Some st, code = None, message = EngineMessage\<rparr>, w1)
      | (NoResponse c m, w1) \<Rightarrow> (Inl \<lparr>response = None, code = c, message = m\<rparr>, w1))"

definition shouldRetry :: "js_error \<Rightarrow> bool" where
  "shouldRetry error =
     (let status = response error
      in status = Some 503 \<or> status = Some 429 \<or> status = Some 408 \<or> response error = None)"

text \<open>The body of the \<open>try\<close> block after the request has resolved.\<close>

definition checkResponse :: "http_response \<Rightarrow> js_error + jsval" where
  "checkResponse r =
     (if status r = 503 then Inl (Error (Text (str ''Model is loading. Please wait a moment and try again.'')))
      else if status r = 429 then Inl (Error (Text (str ''Rate limit exceeded. Please try again later.'')))
      else if status r = 410 then Inl (Error (Text (str ''API endpoint deprecated. Please update the application.'')))
      else if status r \<ge> 400 then Inl (Error (ApiError (status r) (statusText r)))
      else if truthy (optField (data r) (str ''error'')) then Inl (Error (ErrorOf (optField (data r) (str ''error''))))
      else Inr (data r))"

text \<open>
  The \<open>catch\<close> block. It encloses the whole \<open>try\<close> block, so it also receives the errors
  that \<open>checkResponse\<close> throws.
\<close>

definition rethrow :: "js_error \<Rightarrow> js_error" where
  "rethrow error =
     (if response error \<noteq> None then error
      else if code error = Some (str ''ECONNABORTED'')
        then Error (Text (str ''Request timeout. The model is taking too long to respond.''))
      else Error (NetworkError (message error)))"

definition request :: "'w runtime \<Rightarrow> jsstring \<Rightarrow> jsstring \<Rightarrow> hf_parameters \<Rightarrow> ('w, js_error, jsval) async" where
  "request rt model input params w =
     (case hfAxios_post rt (HF_API_URL @ str ''/'' @ model) \<lparr>inputs = input, parameters = params\<rparr> w of
        (Inl error, w1) \<Rightarrow> (Inl (rethrow error), w1)
      | (Inr r, w1) \<Rightarrow>
          (case checkResponse r of
             Inl error \<Rightarrow> (Inl (rethrow error), w1)
           | Inr d \<Rightarrow> (Inr d, w1)))"

text \<open>
  \<open>callHuggingFace\<close> runs the request under \<open>retryOnCondition\<close> with \<open>maxRetries = 3\<close>
  inside \<open>hfCircuitBreaker.execute\<close>. The breaker is a module-level object: the state of a
  call is the breaker together with the outside world.
\<close>

definition circuitOpenError :: js_error where
  "circuitOpenError = Error (Text (str ''Circuit breaker is OPEN. Service temporarily unavailable.''))"

definition callHuggingFace ::
  "'w runtime \<Rightarrow> jsstring \<Rightarrow> jsstring \<Rightarrow> hf_parameters \<Rightarrow> (CircuitBreaker \<times> 'w, js_error, jsval) async"
where
  "callHuggingFace rt model input params = (\<lambda>(cb, w).
     (case execute (Date_now rt)
             (\<lambda>w0. case retryOnCondition (request rt model input params)
                               (\<lambda>error w1. (shouldRetry error, w1)) 3 w0 of
                     (Resolved d, w1) \<Rightarrow> (Inr d, w1)
                   | (Rejected error, w1) \<Rightarrow> (Inl error, w1)
                   | (ResolvedUndefined, w1) \<Rightarrow> (Inr JUndefined, w1))
             cb w of
        (Inl CircuitOpen, cb1, w1) \<Rightarrow> (Inl circuitOpenError, (cb1, w1))
      | (Inl (OperationError error), cb1, w1) \<Rightarrow> (Inl error, (cb1, w1))
      | (Inr d, cb1, w1) \<Rightarrow> (Inr d, (cb1, w1))))"

definition hfCircuitBreaker :: "int \<Rightarrow> CircuitBreaker" where
  "hfCircuitBreaker now =
     new_CircuitBreaker \<lparr>opt_failureThreshold = Some 5, opt_resetTimeout = Some 60000\<rparr> now"

section \<open>services/ai.service.js: text analysis and the structured summary\<close>

text \<open>
  The word counts live in a plain object \<open>wordFreq\<close>. Reading a key that the object does
  not own finds what \<open>Object.prototype\<close> defines under that name: a function for the names
  below, so that \<open>(wordFreq[w] || 0) + 1\<close> is then a string that is not a number, and the
  prototype itself for \<open>__proto__\<close>, where the assignment of the resulting string is ignored.
\<close>

datatype freq = Count nat | NotANumber

definition inheritedNames :: "jsstring list" where
  "inheritedNames =
     [str ''constructor'', str ''__defineGetter__'', str ''__defineSetter__'', str ''hasOwnProperty'',
      str ''__lookupGetter__'', str ''__lookupSetter__'', str ''isPrototypeOf'',
      str ''propertyIsEnumerable'', str ''toString'', str ''valueOf'', str ''toLocaleString'']"

definition countWord :: "(jsstring \<times> freq) list \<Rightarrow> jsstring \<Rightarrow> (jsstring \<times> freq) list" where
  "countWord wordFreq w =
     (if w = str ''__proto__'' then wordFreq
      else
        (case map_of wordFreq w of
           Some (Count n) \<Rightarrow> map (\<lambda>(k, v). if k = w then (k, Count (n + 1)) else (k, v)) wordFreq
         | Some NotANumber \<Rightarrow> wordFreq
         | None \<Rightarrow> wordFreq @ [(w, if w \<in> set inheritedNames then NotANumber else Count 1)]))"

text \<open>
  \<open>Object.entries\<close> lists the keys that are array indices (canonical decimal numbers below
  \<open>2^32 - 1\<close>) first, in ascending order, and then the other keys in the order of their
  creation.
\<close>

definition decimalValue :: "jsstring \<Rightarrow> nat" where
  "decimalValue k = foldl (\<lambda>n d. 10 * n + (d - 48)) 0 k"

definition isArrayIndex :: "jsstring \<Rightarrow> bool" where
  "isArrayIndex k \<longleftrightarrow>
     k \<noteq> [] \<and> list_all (\<lambda>d. 48 \<le> d \<and> d \<le> 57) k \<and> (length k = 1 \<or> hd k \<noteq> 48) \<and>
     decimalValue k < 4294967295"

definition entries :: "(jsstring \<times> freq) list \<Rightarrow> (jsstring \<times> freq) list" where
  "entries wordFreq =
     sort_key (\<lambda>(k, v). decimalValue k) (filter (\<lambda>(k, v). isArrayIndex k) wordFreq) @
     filter (\<lambda>(k, v). \<not> isArrayIndex k) wordFreq"

text \<open>
  \<open>.sort((a, b) => b[1] - a[1])\<close>: a stable sort by descending count. The difference with
  a value that is not a number is \<open>NaN\<close>, which the sort takes as equal; the order the
  engine then produces is its own choice, and this sort is one such choice.
\<close>

definition sortsBefore :: "freq \<Rightarrow> freq \<Rightarrow> bool" where
  "sortsBefore a b = (case (a, b) of (Count x, Count y) \<Rightarrow> y < x | _ \<Rightarrow> False)"

fun insertByCount :: "jsstring \<times> freq \<Rightarrow> (jsstring \<times> freq) list \<Rightarrow> (jsstring \<times> freq) list" where
  "insertByCount x [] = [x]"
| "insertByCount x (y # ys) =
     (if sortsBefore (snd y) (snd x) then y # insertByCount x ys else x # y # ys)"

definition sortByCount :: "(jsstring \<times> freq) list \<Rightarrow> (jsstring \<times> freq) list" where
  "sortByCount xs = foldr insertByCount xs []"

text \<open>
  The frequency table of both extractors: the words of the lower-cased text, stripped of
  every character outside \<open>\w\<close>, counted when longer than \<open>minLength\<close> and not a stop word;
  then the most frequent keys.
\<close>

definition wordFrequencies :: "'w runtime \<Rightarrow> nat \<Rightarrow> jsstring list \<Rightarrow> jsstring \<Rightarrow> (jsstring \<times> freq) list" where
  "wordFrequencies rt minLength stopWords text =
     foldl (\<lambda>wordFreq word.
              (let cleanWord = filter isWordChar word
               in if length cleanWord > minLength \<and> cleanWord \<notin> set stopWords
                  then countWord wordFreq cleanWord else wordFreq))
       [] (split_runs isSpace (toLowerCase rt text))"

definition topWords :: "nat \<Rightarrow> (jsstring \<times> freq) list \<Rightarrow> jsstring list" where
  "topWords n wordFreq = map fst (take n (sortByCount (entries wordFreq)))"

record extracted =
  introSection :: "jsstring list"
  importantSentences :: "jsstring list"
  keyTerms :: "jsstring list"
  paragraphs :: "jsstring list"

definition sentencesOf :: "jsstring \<Rightarrow> jsstring list" where
  "sentencesOf text = filter (\<lambda>s. length (trim s) > 20) (split_runs isSentenceEnd text)"

definition stopWords :: "jsstring list" where
  "stopWords = [str ''the'', str ''this'', str ''that'', str ''with'', str ''from'', str ''which'',
                str ''their'', str ''there'']"

text \<open>\<open>s.toLowerCase().includes(w)\<close> for some \<open>w\<close> of a list.\<close>

definition mentions :: "'w runtime \<Rightarrow> jsstring list \<Rightarrow> jsstring \<Rightarrow> bool" where
  "mentions rt ws s = list_ex (\<lambda>w. includesStr (toLowerCase rt s) w) ws"

text \<open>\<open>Math.floor(n * 0.2)\<close> is \<open>n div 5\<close> for every length a string can have.\<close>

definition extractKeyInformation :: "'w runtime \<Rightarrow> jsstring \<Rightarrow> extracted" where
  "extractKeyInformation rt text =
     (let sentences = sentencesOf text;
          terms = topWords 15 (wordFrequencies rt 5 stopWords text)
      in \<lparr> introSection = take (length sentences div 5) sentences,
            importantSentences = take 10 (filter (mentions rt terms) sentences),
            keyTerms = terms,
            paragraphs = take 5 (filter (\<lambda>p. length (trim p) > 50) (split_paragraphs text)) \<rparr>)"

definition problemIndicators :: "jsstring list" where
  "problemIndicators =
     [str ''problem'', str ''issue'', str ''challenge'', str ''aim'', str ''goal'', str ''purpose'',
      str ''objective'', str ''propose'', str ''present'', str ''introduce'', str ''study'',
      str ''research'', str ''investigate'']"

definition methodIndicators :: "jsstring list" where
  "methodIndicators =
     [str ''method'', str ''approach'', str ''technique'', str ''algorithm'', str ''system'',
      str ''framework'', str ''model'', str ''process'', str ''procedure'']"

definition resultIndicators :: "jsstring list" where
  "resultIndicators =
     [str ''result'', str ''finding'', str ''show'', str ''demonstrate'', str ''achieve'',
      str ''obtain'', str ''observe'', str ''conclude'', str ''indicate'']"

text \<open>\<open>introSection.find(...) || introSection[0]\<close>, for a section that is not empty.\<close>

definition problemSentenceOf :: "'w runtime \<Rightarrow> jsstring list \<Rightarrow> jsstring" where
  "problemSentenceOf rt intro =
     (case find (mentions rt problemIndicators) intro of
        Some s \<Rightarrow> if s \<noteq> [] then s else hd intro
      | None \<Rightarrow> hd intro)"

text \<open>The five blocks of \<open>createStructuredSummary\<close>, each the text it appends to \<open>summary\<close>.\<close>

definition introductionBlock :: "'w runtime \<Rightarrow> jsstring list \<Rightarrow> jsstring" where
  "introductionBlock rt intro =
     (if length intro > 0 then
        (let problemSentence = problemSentenceOf rt intro
         in if problemSentence \<noteq> [] then
              trim problemSentence @
              (if length problemSentence < 150 \<and> length intro > 1 then str '' '' @ trim (intro ! 1) else []) @
              str ''\<newline>\<newline>''
            else
              (let i = join (str '' '') (take 2 intro)
               in take 250 i @ (if length i > 250 then str ''...'' else []) @ str ''\<newline>\<newline>''))
      else [])"

fun organize :: "jsstring list \<Rightarrow> jsstring list \<Rightarrow> jsstring list" where
  "organize used [] = []"
| "organize used (sentence # rest) =
     (if sentence \<notin> set used \<and> length (trim sentence) > 40 \<and> length (trim sentence) < 250
      then trim sentence # organize (sentence # used) rest
      else organize used rest)"

text \<open>The bullet of the source is the three characters U+00E2, U+20AC, U+00A2 and a space.\<close>

definition bullet :: jsstring where
  "bullet = [226, 8364, 162, 32]"

definition mainPointsBlock :: "jsstring list \<Rightarrow> jsstring" where
  "mainPointsBlock important =
     (if length important > 0 then
        (let organizedSentences = organize [] important
         in if length organizedSentences > 0 then
              str ''Main Points:\<newline>'' @
              concat (map (\<lambda>sentence.
                             (let cleanSentence = trim sentence
                              in bullet @ (if endsSentence cleanSentence then cleanSentence
                                           else cleanSentence @ str ''.'') @ str ''\<newline>''))
                        (take 6 organizedSentences)) @
              str ''\<newline>''
            else [])
      else [])"

definition labelledBlock :: "jsstring \<Rightarrow> jsstring list \<Rightarrow> jsstring" where
  "labelledBlock label found =
     (if length found > 0 then
        label @ trim (hd found) @ (if endsSentence (hd found) then [] else str ''.'') @
        str ''\<newline>\<newline>''
      else [])"

definition approachBlock :: "'w runtime \<Rightarrow> jsstring list \<Rightarrow> jsstring" where
  "approachBlock rt important =
     labelledBlock (str ''Approach: '') (filter (mentions rt methodIndicators) important)"

definition findingsBlock :: "'w runtime \<Rightarrow> jsstring list \<Rightarrow> jsstring" where
  "findingsBlock rt important =
     labelledBlock (str ''Key Findings: '') (filter (mentions rt resultIndicators) important)"

definition conclusionBlock :: "jsstring list \<Rightarrow> jsstring" where
  "conclusionBlock paras =
     (if length paras > 0 then
        (let conclusion = last paras
         in if conclusion \<noteq> [] \<and> length conclusion > 50 then
              (let conclusionText = trim conclusion
               in str ''Conclusion: '' @ take 200 conclusionText @
                  (if length conclusionText > 200 then str ''...'' else []) @
                  (if endsSentence conclusionText then [] else str ''.''))
            else [])
      else [])"

definition tidy :: "jsstring \<Rightarrow> jsstring" where
  "tidy s = trim (replace_dots (replace_blank_lines (replace_spaces (trim s))))"

definition createStructuredSummary :: "'w runtime \<Rightarrow> extracted \<Rightarrow> jsstring" where
  "createStructuredSummary rt e =
     tidy (introductionBlock rt (introSection e) @ mainPointsBlock (importantSentences e) @
           approachBlock rt (importantSentences e) @ findingsBlock rt (importantSentences e) @
           conclusionBlock (paragraphs e))"

section \<open>services/ai.service.js: summarizeText\<close>

definition textEmptyError :: js_error where
  "textEmptyError = Error (Text (str ''Text is empty or invalid''))"

definition summarizationModels :: "jsstring list" where
  "summarizationModels =
     [str ''google/flan-t5-large'', str ''google/flan-t5-base'', str ''Falconsai/text_summarization'',
      str ''facebook/bart-large-cnn'', str ''google/pegasus-xsum'', str ''sshleifer/distilbart-cnn-12-6'']"

text \<open>The extractive summary, which is also the fallback of every other path.\<close>

definition extractiveSummary :: "'w runtime \<Rightarrow> jsstring \<Rightarrow> jsstring" where
  "extractiveSummary rt text = createStructuredSummary rt (extractKeyInformation rt text)"

definition summaryPrompt :: "jsstring \<Rightarrow> jsstring \<Rightarrow> jsstring" where
  "summaryPrompt model text =
     (if includesStr model (str ''flan-t5'') then
        str ''Summarize the following text in a clear, structured way. Include:\<newline>1. Main topic/problem statement\<newline>2. Key points and findings  \<newline>3. Important conclusions\<newline>\<newline>Text: '' @
        take 2000 text @ str ''\<newline>\<newline>Summary:''
      else if includesStr model (str ''Falconsai'') then take 2000 text
      else (if length text > 2000 then take 2000 text else text))"

text \<open>
  \<open>Math.floor(wordCount * 0.2)\<close> and \<open>Math.floor(targetLength * 0.6)\<close> are the integer
  quotients below for the values that occur.
\<close>

definition summaryParameters :: "jsstring \<Rightarrow> nat \<Rightarrow> hf_parameters" where
  "summaryParameters model wordCount =
     (let targetLength = max 150 (min 400 (wordCount div 5));
          maxLength = min 512 (targetLength + 50);
          minLength = max 100 (targetLength * 3 div 5);
          usePrompt = includesStr model (str ''flan-t5'')
      in \<lparr> max_length = maxLength, min_length = Some minLength, do_sample = \<not> usePrompt,
            temperature = (if usePrompt then 7 / 10 else 3 / 10),
            top_p = (if usePrompt then Some (9 / 10) else None) \<rparr>)"

text \<open>
  The summary read off a response; \<open>result.summary_text\<close> and \<open>result.generated_text\<close>
  throw on \<open>null\<close> and \<open>undefined\<close>. \<open>JNull\<close> is the initial \<open>null\<close> of \<open>summary\<close>.
\<close>

definition summaryOf :: "jsval \<Rightarrow> js_error + jsval" where
  "summaryOf result =
     (if isArray result \<and> truthy (optField (first result) (str ''summary_text''))
        then Inr (field (first result) (str ''summary_text''))
      else if nullish result then Inl TypeError
      else if truthy (field result (str ''summary_text'')) then Inr (field result (str ''summary_text''))
      else if isArray result \<and> truthy (optField (first result) (str ''generated_text''))
        then Inr (field (first result) (str ''generated_text''))
      else if truthy (field result (str ''generated_text'')) then Inr (field result (str ''generated_text''))
      else Inr JNull)"

text \<open>
  What the loop does with the summary of one model: \<open>Inl\<close> is a \<open>TypeError\<close> (the value is
  true but has no \<open>trim\<close>), \<open>Inr None\<close> is a summary that is not accepted, so that the loop
  goes on, and \<open>Inr (Some s)\<close> is the value returned.
\<close>

definition acceptSummary :: "'w runtime \<Rightarrow> jsstring \<Rightarrow> jsval \<Rightarrow> js_error + jsstring option" where
  "acceptSummary rt text v =
     (if \<not> truthy v then Inr None
      else
        (case v of
           JStr s \<Rightarrow>
             if length (trim s) > 50 then
               (let cleanedSummary = replace_dots (replace_spaces (trim s))
                in if length (split_each isSentenceEnd cleanedSummary) > 10 \<and> length cleanedSummary < 200
                   then (let structured = extractiveSummary rt text
                         in Inr (Some (if length structured > length cleanedSummary then structured
                                       else cleanedSummary)))
                   else Inr (Some cleanedSummary))
             else Inr None
         | _ \<Rightarrow> Inl TypeError))"

fun summarizeWith ::
  "'w runtime \<Rightarrow> jsstring \<Rightarrow> nat \<Rightarrow> jsstring list \<Rightarrow> CircuitBreaker \<times> 'w \<Rightarrow> jsstring \<times> (CircuitBreaker \<times> 'w)"
where
  "summarizeWith rt text wordCount [] s = (extractiveSummary rt text, s)"
| "summarizeWith rt text wordCount (model # rest) s =
     (case callHuggingFace rt model (summaryPrompt model text) (summaryParameters model wordCount) s of
        (Inl error, s1) \<Rightarrow>
          if model = last summarizationModels then (extractiveSummary rt text, s1)
          else summarizeWith rt text wordCount rest s1
      | (Inr result, s1) \<Rightarrow>
          (case summaryOf result of
             Inl error \<Rightarrow>
               if model = last summarizationModels then (extractiveSummary rt text, s1)
               else summarizeWith rt text wordCount rest s1
           | Inr v \<Rightarrow>
               (case acceptSummary rt text v of
                  Inl error \<Rightarrow>
                    if model = last summarizationModels then (extractiveSummary rt text, s1)
                    else summarizeWith rt text wordCount rest s1
                | Inr (Some summary) \<Rightarrow> (summary, s1)
                | Inr None \<Rightarrow> summarizeWith rt text wordCount rest s1)))"

definition summarizeText :: "'w runtime \<Rightarrow> jsstring \<Rightarrow> (CircuitBreaker \<times> 'w, js_error, jsstring) async" where
  "summarizeText rt text s =
     (if text = [] \<or> length (trim text) = 0 then (Inl textEmptyError, s)
      else
        (let wordCount = length (split_runs isSpace text)
         in if wordCount < 500 then (Inr (extractiveSummary rt text), s)
            else (case summarizeWith rt text wordCount summarizationModels s of
                    (summary, s1) \<Rightarrow> (Inr summary, s1))))"

section \<open>services/ai.service.js: the questions\<close>

record mcq =
  question :: jsval
  options :: "jsval list"
  answer :: jsval

definition mcqModels :: "jsstring list" where
  "mcqModels =
     [str ''google/flan-t5-large'', str ''google/flan-t5-base'', str ''microsoft/DialoGPT-large'',
      str ''gpt2'', str ''distilgpt2'']"

definition mcqPrompt :: "jsstring \<Rightarrow> jsstring" where
  \<open>mcqPrompt text =
     str ''You are an expert educator. Create exactly 5 diverse multiple-choice questions (mix what/why/how/which/identify) based on the text below. Each question must be clear and concise. Vary structure and avoid revealing answers in the question. Return ONLY valid JSON array with objects: {"question": "...", "options": ["A","B","C","D"], "answer": "one of the options"}.\<newline>\<newline>Text:\<newline>'' @
     take 1500 text @ str ''\<newline>\<newline>JSON Array:''\<close>

definition mcqParameters :: "jsstring \<Rightarrow> hf_parameters" where
  "mcqParameters model =
     (let isFlanModel = includesStr model (str ''flan-t5'')
      in \<lparr> max_length = (if isFlanModel then 800 else 500), min_length = None, do_sample = True,
            temperature = (if isFlanModel then 7 / 10 else 8 / 10),
            top_p = (if isFlanModel then Some (9 / 10) else None) \<rparr>)"

text \<open>The text read off a response; \<open>JStr []\<close> is the initial \<open>''\<close> of \<open>mcqText\<close>.\<close>

definition mcqTextOf :: "jsval \<Rightarrow> js_error + jsval" where
  "mcqTextOf result =
     (if isArray result \<and> truthy (optField (first result) (str ''generated_text''))
        then Inr (field (first result) (str ''generated_text''))
      else if nullish result then Inl TypeError
      else if truthy (field result (str ''generated_text'')) then Inr (field result (str ''generated_text''))
      else (case result of JStr s \<Rightarrow> Inr (JStr s) | _ \<Rightarrow> Inr (JStr [])))"

definition defaultOptions :: "jsval list" where
  "defaultOptions = [JStr (str ''Option A''), JStr (str ''Option B''), JStr (str ''Option C''),
                     JStr (str ''Option D'')]"

text \<open>The callback of \<open>map\<close>, for an element that is neither \<open>null\<close> nor \<open>undefined\<close>.\<close>

definition toMCQ :: "jsval \<Rightarrow> mcq" where
  "toMCQ m =
     \<lparr> question = (if truthy (field m (str ''question'')) then field m (str ''question'')
                    else JStr (str ''Question not generated'')),
       options = (case field m (str ''options'') of
                    JArr xs \<Rightarrow> if length xs = 4 then xs else defaultOptions
                  | _ \<Rightarrow> defaultOptions),
       answer = (if truthy (field m (str ''answer'')) then field m (str ''answer'')
                 else if truthy (optFirst (field m (str ''options''))) then optFirst (field m (str ''options''))
                 else JStr (str ''Option A'')) \<rparr>"

text \<open>
  The questions parsed from the text of a response, or \<open>None\<close> when the loop goes on to the
  next model: no bracketed part, a \<open>SyntaxError\<close> of \<open>JSON.parse\<close>, a value that is not a
  non-empty array, or a \<open>TypeError\<close> of the callback on a \<open>null\<close> element (both errors are
  caught by the inner \<open>catch\<close>).
\<close>

definition parseMCQs :: "'w runtime \<Rightarrow> jsstring \<Rightarrow> mcq list option" where
  "parseMCQs rt mcqText =
     (case match_brackets mcqText of
        None \<Rightarrow> None
      | Some json \<Rightarrow>
          (case JSON_parse rt json of
             Some (JArr ms) \<Rightarrow>
               if length ms > 0 then
                 (if list_ex nullish (take 5 ms) then None else Some (map toMCQ (take 5 ms)))
               else None
           | _ \<Rightarrow> None))"

text \<open>
  A response is accepted when it yields questions; a text that is true but not a string
  has no \<open>match\<close>, and the \<open>TypeError\<close> is caught by the outer \<open>catch\<close>.
\<close>

definition acceptMCQs :: "'w runtime \<Rightarrow> jsval \<Rightarrow> mcq list option" where
  "acceptMCQs rt result =
     (case mcqTextOf result of
        Inl error \<Rightarrow> None
      | Inr v \<Rightarrow>
          if truthy v then (case v of JStr s \<Rightarrow> parseMCQs rt s | _ \<Rightarrow> None) else None)"

definition questionTypes :: "nat \<Rightarrow> jsstring \<Rightarrow> jsstring" where
  \<open>questionTypes i phrase =
     (if i = 0 then str ''What is mentioned about "'' @ phrase @ str ''"?''
      else if i = 1 then str ''According to the text, which statement is true regarding "'' @ phrase @ str ''"?''
      else if i = 2 then str ''How does the text describe "'' @ phrase @ str ''"?''
      else if i = 3 then str ''Why is "'' @ phrase @ str ''" important according to the document?''
      else str ''Identify the key aspect of "'' @ phrase @ str ''" mentioned in the text.'')\<close>

text \<open>
  The question built from the sentence at index \<open>i\<close>, already trimmed. The source also
  computes a \<open>keyTerm\<close> of the sentence, which it never uses.
\<close>

definition sentenceMCQ :: "nat \<Rightarrow> jsstring \<Rightarrow> mcq" where
  "sentenceMCQ i sentence =
     (let keyPhrase = take (min 60 (length sentence)) sentence;
          opts = [JStr (take (min 80 (length sentence)) sentence @
                        (if length sentence > 80 then str ''...'' else [])),
                  JStr (str ''It is not discussed in the text''),
                  JStr (str ''The text provides conflicting information''),
                  JStr (str ''Further research is needed on this topic'')]
      in \<lparr> question = JStr (questionTypes (i mod 5)
                              (take 40 keyPhrase @ (if length keyPhrase > 40 then str ''...'' else []))),
            options = take 4 opts,
            answer = hd opts \<rparr>)"

definition genericMCQ :: "jsstring list \<Rightarrow> mcq" where
  \<open>genericMCQ importantWords =
     (let topics = take 4 importantWords
      in \<lparr> question = JStr (str ''What is the main focus regarding "'' @
                              (case topics of t # _ \<Rightarrow> if t \<noteq> [] then t else str ''the subject''
                                            | [] \<Rightarrow> str ''the subject'') @
                              str ''" in this document?''),
            options = [JStr (str ''It is the primary topic discussed''), JStr (str ''It is mentioned briefly''),
                       JStr (str ''It is not relevant to the document''),
                       JStr (str ''It requires additional context'')],
            answer = JStr (str ''It is the primary topic discussed'') \<rparr>)\<close>

definition generateIntelligentMCQs :: "'w runtime \<Rightarrow> jsstring \<Rightarrow> mcq list" where
  "generateIntelligentMCQs rt text =
     (let sentences = sentencesOf text;
          importantWords = topWords 10 (wordFrequencies rt 4 [] text);
          fromSentences =
            concat (map (\<lambda>i. (let sentence = trim (sentences ! i)
                               in if length sentence < 30 then [] else [sentenceMCQ i sentence]))
                      [0 ..< min 5 (length sentences)])
      in take 5 (fromSentences @ replicate (5 - length fromSentences) (genericMCQ importantWords)))"

fun generateWith ::
  "'w runtime \<Rightarrow> jsstring \<Rightarrow> jsstring list \<Rightarrow> CircuitBreaker \<times> 'w \<Rightarrow> mcq list \<times> (CircuitBreaker \<times> 'w)"
where
  "generateWith rt text [] s = (generateIntelligentMCQs rt text, s)"
| "generateWith rt text (model # rest) s =
     (case callHuggingFace rt model (mcqPrompt text) (mcqParameters model) s of
        (Inl error, s1) \<Rightarrow> generateWith rt text rest s1
      | (Inr result, s1) \<Rightarrow>
          (case acceptMCQs rt result of
             Some ms \<Rightarrow> (ms, s1)
           | None \<Rightarrow> generateWith rt text rest s1))"

definition generateMCQs :: "'w runtime \<Rightarrow> jsstring \<Rightarrow> (CircuitBreaker \<times> 'w, js_error, mcq list) async" where
  "generateMCQs rt text s =
     (if text = [] \<or> length (trim text) = 0 then (Inl textEmptyError, s)
      else (case generateWith rt text mcqModels s of (ms, s1) \<Rightarrow> (Inr ms, s1)))"

section \<open>services/ai.service.js: processDocument\<close>

record processing_result =
  summary :: jsstring
  mcqs :: "mcq list"

definition documentEmptyError :: js_error where
  "documentEmptyError = Error (Text (str ''Document text is empty or invalid''))"

text \<open>
  \<open>[chunks[0], chunks[Math.floor(chunks.length / 2)], chunks[chunks.length - 1]].filter(Boolean)\<close>:
  an index outside the array gives \<open>undefined\<close>, which the filter drops as it drops an
  empty chunk.
\<close>

definition priorityChunks :: "jsstring list \<Rightarrow> jsstring list" where
  "priorityChunks chunks =
     filter (\<lambda>chunk. chunk \<noteq> [])
       (concat (map (\<lambda>i. if i < length chunks then [chunks ! i] else [])
                  [0, length chunks div 2, length chunks - 1]))"

fun summarizeSections ::
  "'w runtime \<Rightarrow> jsstring list \<Rightarrow> CircuitBreaker \<times> 'w \<Rightarrow> jsstring list \<times> (CircuitBreaker \<times> 'w)"
where
  "summarizeSections rt [] s = ([], s)"
| "summarizeSections rt (chunk # rest) s =
     (case summarizeText rt chunk s of
        (Inl error, s1) \<Rightarrow> summarizeSections rt rest s1
      | (Inr sectionSummary, s1) \<Rightarrow>
          (case summarizeSections rt rest s1 of
             (sectionSummaries, s2) \<Rightarrow>
               (if sectionSummary \<noteq> [] \<and> length sectionSummary > 50
                then sectionSummary # sectionSummaries else sectionSummaries, s2)))"

text \<open>
  The summary before the quality check (\<open>finalSummary\<close> at the end of the \<open>if\<close> on the word
  count). \<open>None\<close> is a call of \<open>chunkText\<close> that does not return.
\<close>

definition summaryStage ::
  "'w runtime \<Rightarrow> jsstring \<Rightarrow> CircuitBreaker \<times> 'w \<Rightarrow> ((js_error + jsstring) \<times> (CircuitBreaker \<times> 'w)) option"
where
  "summaryStage rt text s =
     (let wordCount = length (split_runs isSpace text)
      in if wordCount > 3000 then
           (case chunkText text 1000 of
              None \<Rightarrow> None
            | Some (Inl error) \<Rightarrow> Some (Inl error, s)
            | Some (Inr chunks) \<Rightarrow>
                (case summarizeSections rt (priorityChunks chunks) s of
                   (sectionSummaries, s1) \<Rightarrow>
                     if length sectionSummaries > 0 then
                       (let combined = join (str ''\<newline>\<newline>'') sectionSummaries
                        in if length combined > 500 then Some (summarizeText rt combined s1)
                           else Some (Inr combined, s1))
                     else Some (summarizeText rt (take 3000 text) s1)))
         else Some (summarizeText rt text s))"

text \<open>\<open>Ensure summary has minimum quality\<close>\<close>

definition ensureMinimumQuality :: "'w runtime \<Rightarrow> jsstring \<Rightarrow> jsstring \<Rightarrow> jsstring" where
  "ensureMinimumQuality rt text finalSummary =
     (if finalSummary = [] \<or> length (trim finalSummary) < 100 then
        (let enhanced = extractiveSummary rt text
         in if length enhanced > length finalSummary then enhanced else finalSummary)
      else finalSummary)"

definition processDocument ::
  "'w runtime \<Rightarrow> jsstring \<Rightarrow> CircuitBreaker \<times> 'w \<Rightarrow> ((js_error + processing_result) \<times> (CircuitBreaker \<times> 'w)) option"
where
  "processDocument rt text s =
     (if text = [] \<or> length (trim text) = 0 then Some (Inl documentEmptyError, s)
      else
        (case summaryStage rt text s of
           None \<Rightarrow> None
         | Some (Inl error, s1) \<Rightarrow> Some (Inl error, s1)
         | Some (Inr finalSummary, s1) \<Rightarrow>
             (case generateMCQs rt text s1 of
                (Inl error, s2) \<Rightarrow> Some (Inl error, s2)
              | (Inr ms, s2) \<Rightarrow>
                  Some (Inr \<lparr> summary = trim (ensureMinimumQuality rt text finalSummary),
                             mcqs = take 5 ms \<rparr>, s2))))"

section \<open>Test inputs\<close>

text \<open>The text of \<open>n\<close> words \<open>a\<close>, separated by single spaces.\<close>

definition words_of_a :: "nat \<Rightarrow> jsstring" where
  "words_of_a n = join (str '' '') (replicate n (str ''a''))"

text \<open>
  A host for running the program on ASCII texts: \<open>toLowerCase\<close> maps \<open>A\<close> to \<open>Z\<close> to
  \<open>a\<close> to \<open>z\<close>, which is what the built-in function does on such texts; \<open>JSON.parse\<close>
  rejects everything; the clock stands at \<open>0\<close>; the network answers every request with the
  same outcome, and the state of the world is the number of requests sent so far.
\<close>

definition asciiLower :: "jsstring \<Rightarrow> jsstring" where
  "asciiLower s = map (\<lambda>c. if 65 \<le> c \<and> c \<le> 90 then c + 32 else c) s"

definition fixedRuntime :: "http_outcome \<Rightarrow> nat runtime" where
  "fixedRuntime outcome =
     \<lparr> toLowerCase = asciiLower,
       JSON_parse = (\<lambda>json. None),
       Date_now = (\<lambda>n. (0, n)),
       send = (\<lambda>url body n. (outcome, Suc n)) \<rparr>"

text \<open>A network that is unreachable, and one that answers 410 Gone.\<close>

definition offlineRuntime :: "nat runtime" where
  "offlineRuntime = fixedRuntime (NoResponse None (Text (str ''getaddrinfo ENOTFOUND'')))"

definition goneRuntime :: "nat runtime" where
  "goneRuntime = fixedRuntime (Response 410 (str ''Gone'') JNull)"



text \<open>
  A summary of 51 characters that the cleaning step shortens to 40, and an inference
  service that answers every request with it.
\<close>

definition briefSummary :: jsstring where
  "briefSummary = str ''Sorting            is a common problem in computing''"

definition summaryRuntime :: "nat runtime" where
  "summaryRuntime =
     fixedRuntime (Response 200 (str ''OK'') (JArr [JObj [(str ''summary_text'', JStr briefSummary)]]))"

section \<open>Auxiliary predicates\<close>

text \<open>
  A string in which every white-space character is a space and no two of them are
  adjacent, as \<open>replace(/\s+/g, ' ')\<close> leaves it.
\<close>

fun singleSpaced :: "jsstring \<Rightarrow> bool" where
  "singleSpaced [] = True"
| "singleSpaced (c # s) = ((isSpace c \<longrightarrow> c = 32 \<and> (s = [] \<or> \<not> isSpace (hd s))) \<and> singleSpaced s)"

text \<open>The number of characters of a string that are not white space.\<close>

definition nonSpaces :: "jsstring \<Rightarrow> nat" where
  "nonSpaces s = length (filter (\<lambda>c. \<not> isSpace c) s)"






section \<open>Properties of the string functions\<close>

lemma trim_eq_Nil_iff: "trim s = [] \<longleftrightarrow> (\<forall>c \<in> set s. isSpace c)"
proof
  assume "trim s = []"
  then have "dropWhile isSpace (rev (dropWhile isSpace s)) = []" by (simp add: trim_def)
  then have "\<forall>c \<in> set (dropWhile isSpace s). isSpace c"
    by (metis dropWhile_eq_Nil_conv set_rev)
  then have "dropWhile isSpace s = []"
    by (metis hd_dropWhile list.set_sel(1))
  then show "\<forall>c \<in> set s. isSpace c" by (metis dropWhile_eq_Nil_conv)
next
  assume "\<forall>c \<in> set s. isSpace c"
  then show "trim s = []" by (auto simp: trim_def dest: set_dropWhileD)
qed

lemma split_runs_not_Nil [simp]: "split_runs sep s \<noteq> []"
  by (induction sep s rule: split_runs.induct) (auto split: list.splits)

lemma split_runs_no_sep:
  "w \<in> set (split_runs sep s) \<Longrightarrow> c \<in> set w \<Longrightarrow> \<not> sep c"
proof (induction sep s arbitrary: w rule: split_runs.induct)
  case (1 sep)
  then show ?case by simp
next
  case (2 sep d ds)
  show ?case
  proof (cases "sep d")
    case True
    with 2 show ?thesis by auto
  next
    case False
    obtain v vs where split: "split_runs sep ds = v # vs"
      by (cases "split_runs sep ds") auto
    with False "2.prems" have "w = d # v \<or> w \<in> set vs" by auto
    moreover have "\<And>u. u \<in> set (v # vs) \<Longrightarrow> c \<in> set u \<Longrightarrow> \<not> sep c"
      using "2.IH"(2)[OF False] split by simp
    ultimately show ?thesis
      using False "2.prems"(2) by (metis list.set_intros(1,2) set_ConsD)
  qed
qed

lemma split_runs_sep_free: "\<forall>c \<in> set s. \<not> sep c \<Longrightarrow> split_runs sep s = [s]"
  by (induction s) auto

lemma split_runs_append_sep:
  "\<forall>c \<in> set x. \<not> sep c \<Longrightarrow> sep d \<Longrightarrow>
   split_runs sep (x @ d # rest) = x # split_runs sep (dropWhile sep rest)"
  by (induction x) auto

lemma hd_split_runs_not_Nil:
  "s \<noteq> [] \<Longrightarrow> \<not> sep (hd s) \<Longrightarrow> hd (split_runs sep s) \<noteq> []"
  by (cases s) (auto split: list.splits)

text \<open>Only the first and the last piece of a split can be empty.\<close>

lemma split_runs_inner_not_Nil:
  "0 < j \<Longrightarrow> Suc j < length (split_runs sep s) \<Longrightarrow> split_runs sep s ! j \<noteq> []"
proof (induction sep s arbitrary: j rule: split_runs.induct)
  case (1 sep)
  then show ?case by simp
next
  case (2 sep d ds)
  show ?case
  proof (cases "sep d")
    case True
    let ?r = "split_runs sep (dropWhile sep ds)"
    from True "2.prems" have len: "j < length ?r" and nth: "split_runs sep (d # ds) ! j = ?r ! (j - 1)"
      by (auto simp: nth_Cons')
    show ?thesis
    proof (cases "j = 1")
      case True
      have "dropWhile sep ds \<noteq> []" using len True by (cases "dropWhile sep ds") auto
      moreover have "\<not> sep (hd (dropWhile sep ds))"
        using calculation hd_dropWhile by blast
      ultimately have "hd ?r \<noteq> []" by (rule hd_split_runs_not_Nil)
      then show ?thesis using nth True by (simp add: hd_conv_nth)
    next
      case False
      then have "0 < j - 1" "Suc (j - 1) < length ?r" using "2.prems" len by auto
      from "2.IH"(1)[OF True this] show ?thesis using nth by simp
    qed
  next
    case False
    obtain v vs where split: "split_runs sep ds = v # vs"
      by (cases "split_runs sep ds") auto
    with False "2.prems" have "Suc j < length (split_runs sep ds)" 
      and "split_runs sep (d # ds) ! j = split_runs sep ds ! j"
      by (auto simp: nth_Cons')
    with "2.IH"(2)[OF False "2.prems"(1)] show ?thesis by simp
  qed
qed

lemma join_Cons: "join sep (x # xs) = (if xs = [] then x else x @ sep @ join sep xs)"
  by (cases xs) auto

text \<open>Splitting the join of words gives the words back.\<close>

lemma split_runs_join:
  assumes "ws \<noteq> []" "\<forall>w \<in> set ws. \<forall>c \<in> set w. \<not> sep c" "sep d"
    and "\<forall>j. 0 < j \<and> Suc j < length ws \<longrightarrow> ws ! j \<noteq> []"
  shows "split_runs sep (join [d] ws) = ws"
  using assms
proof (induction ws)
  case Nil
  then show ?case by simp
next
  case (Cons x ws)
  show ?case
  proof (cases "ws = []")
    case True
    with Cons.prems show ?thesis by (simp add: split_runs_sep_free)
  next
    case False
    have inner: "\<forall>j. 0 < j \<and> Suc j < length ws \<longrightarrow> ws ! j \<noteq> []"
    proof (intro allI impI)
      fix j assume "0 < j \<and> Suc j < length ws"
      then have "0 < Suc j \<and> Suc (Suc j) < length (x # ws)" by simp
      with Cons.prems(4) have "(x # ws) ! Suc j \<noteq> []" by blast
      then show "ws ! j \<noteq> []" by simp
    qed
    have IH: "split_runs sep (join [d] ws) = ws"
      using Cons.IH[OF False _ Cons.prems(3) inner] Cons.prems(2) by simp
    have nodrop: "dropWhile sep (join [d] ws) = join [d] ws"
    proof (cases "hd ws = []")
      case True
      have "length ws = 1"
      proof (rule ccontr)
        assume "length ws \<noteq> 1"
        with False have "0 < (1::nat) \<and> Suc 1 < length (x # ws)"
          by (cases ws) auto
        with Cons.prems(4) have "(x # ws) ! 1 \<noteq> []" by blast
        with True False show False by (simp add: hd_conv_nth)
      qed
      with True show ?thesis by (cases ws) auto
    next
      case hdne: False
      then obtain c cs where "hd ws = c # cs" by (cases "hd ws") auto
      with False have "hd (join [d] ws) = c" "join [d] ws \<noteq> []"
        by (cases ws; simp add: join_Cons)+
      moreover have "\<not> sep c" using Cons.prems(2) False \<open>hd ws = c # cs\<close>
        by (metis list.set_intros(1) list.set_sel(1) list.set_intros(2))
      ultimately show ?thesis by (cases "join [d] ws") auto
    qed
    have "split_runs sep (join [d] (x # ws)) = split_runs sep (x @ d # join [d] ws)"
      using False by (simp add: join_Cons)
    also have "\<dots> = x # split_runs sep (dropWhile sep (join [d] ws))"
      using Cons.prems(2,3) by (intro split_runs_append_sep) auto
    finally show ?thesis by (simp add: nodrop IH)
  qed
qed

section \<open>Properties of the retry loop\<close>

declare retryOnCondition_from.simps [simp del]

lemma counted_step: "counted fn (n, s) = (fst (fn s), (Suc n, snd (fn s)))"
  by (simp add: counted_def split: prod.splits)

lemma uncounted_step: "uncounted p e (n, s) = (fst (p e s), (n, snd (p e s)))"
  by (simp add: uncounted_def split: prod.splits)

lemma retry_counted_bound:
  "retryOnCondition_from (counted fn) (uncounted p) m a (n, s) = (r, (n', s')) \<Longrightarrow> a \<le> m
   \<Longrightarrow> n < n' \<and> n' + a \<le> n + m + 1"
proof (induction "m - a" arbitrary: a n s)
  case 0
  then show ?case
    by (subst (asm) retryOnCondition_from.simps)
       (auto simp: counted_step split: sum.splits)
next
  case (Suc d)
  have step: "d = m - Suc a" "Suc a \<le> m" using Suc.hyps(2) by auto
  from Suc.prems show ?case
    apply (subst (asm) retryOnCondition_from.simps)
    apply (simp add: counted_step uncounted_step split: sum.splits if_splits bool.splits)
    using Suc.hyps(1)[OF step(1) _ step(2)] apply fastforce+
    done
qed

lemma retry_trueTimes:
  "a \<le> m \<Longrightarrow> a \<le> k \<Longrightarrow>
   retryOnCondition_from (alwaysFails e) (trueTimes k) m a \<lparr>opCalls = a, predCalls = a\<rparr>
     = (Rejected e, \<lparr>opCalls = min k m + 1, predCalls = min (k + 1) m\<rparr>)"
proof (induction "m - a" arbitrary: a)
  case 0
  then show ?case
    by (subst retryOnCondition_from.simps) (auto simp: alwaysFails_def trueTimes_def min_def)
next
  case (Suc d)
  then show ?case
    apply (subst retryOnCondition_from.simps)
    apply (auto simp: alwaysFails_def trueTimes_def min_def split: bool.splits)
    done
qed

lemma retry_first_success:
  "fn s = (Inr v, s1) \<Longrightarrow> retryOnCondition fn p m s = (Resolved v, s1)"
  by (simp add: retryOnCondition_def retryOnCondition_from.simps)

text \<open>
  C7: \<open>retryOnCondition\<close> invokes the operation once and then again only while the
  predicate accepts the last error and the bound is not reached. With a predicate that is
  true exactly once and \<open>maxRetries = 3\<close>, an operation that always fails is invoked
  exactly twice before its error propagates; in general a predicate that is true \<open>k\<close>
  times allows \<open>min k maxRetries + 1\<close> invocations, a first success ends the loop at
  once, and no run makes fewer than one or more than \<open>maxRetries + 1\<close> invocations.
\<close>

theorem retryOnCondition_invocations:
  "retryOnCondition (alwaysFails e) (trueTimes 1) 3 \<lparr>opCalls = 0, predCalls = 0\<rparr>
     = (Rejected e, \<lparr>opCalls = 2, predCalls = 2\<rparr>)
   \<and> retryOnCondition (alwaysFails e) (trueTimes k) m \<lparr>opCalls = 0, predCalls = 0\<rparr>
     = (Rejected e, \<lparr>opCalls = min k m + 1, predCalls = min (k + 1) m\<rparr>)
   \<and> (fn s = (Inr v, s1) \<longrightarrow> retryOnCondition fn p m s = (Resolved v, s1))
   \<and> (retryOnCondition (counted fn) (uncounted p) m (0, s) = (r, (n, s'))
        \<longrightarrow> 1 \<le> n \<and> n \<le> m + 1)"
proof -
  have general: "retryOnCondition (alwaysFails e) (trueTimes k) m \<lparr>opCalls = 0, predCalls = 0\<rparr>
     = (Rejected e, \<lparr>opCalls = min k m + 1, predCalls = min (k + 1) m\<rparr>)" for k m
    unfolding retryOnCondition_def by (rule retry_trueTimes) simp_all
  have bound: "1 \<le> n \<and> n \<le> m + 1"
    if "retryOnCondition (counted fn) (uncounted p) m (0, s) = (r, (n, s'))"
    using retry_counted_bound[of fn p m 0 0 s r n s'] that
    by (simp add: retryOnCondition_def)
  have specific: "retryOnCondition (alwaysFails e) (trueTimes 1) 3 \<lparr>opCalls = 0, predCalls = 0\<rparr>
     = (Rejected e, \<lparr>opCalls = 2, predCalls = 2\<rparr>)"
    by (simp add: general)
  from specific general bound retry_first_success[of fn s v s1 p m] show ?thesis
    by blast
qed

theorem retryOnCondition_invocations_witness:
  "(\<lambda>u::unit. (Inr (7::nat), u)) () = (Inr 7, ())
   \<and> retryOnCondition (\<lambda>u::unit. (Inr (7::nat) :: string + nat, u)) (\<lambda>e u. (True, u)) 3 () = (Resolved 7, ())
   \<and> retryOnCondition (counted (\<lambda>u::unit. (Inr (7::nat) :: string + nat, u))) (uncounted (\<lambda>e u. (True, u))) 3 (0, ())
        = (Resolved 7, (1, ()))
   \<and> (1::nat) \<le> 1 \<and> (1::nat) \<le> 3 + 1"
  using retryOnCondition_invocations[where fn = "\<lambda>u::unit. (Inr (7::nat) :: string + nat, u)"
      and s = "()" and v = 7 and ?s1.0 = "()" and p = "\<lambda>e u. (True, u)" and m = 3
      and r = "Resolved 7" and n = 1 and s' = "()"]
  by (simp add: retryOnCondition_def retryOnCondition_from.simps counted_step)

section \<open>Properties of the circuit breaker\<close>

lemma execute_failure_closed:
  assumes "state cb = CLOSED" "fn s = (Inl e, s1)"
  shows "execute now fn cb s =
           (Inl (OperationError e), fst (onFailure now cb s1), snd (onFailure now cb s1))"
  using assms by (simp add: execute_def split: prod.splits)

lemma onFailure_eq:
  "onFailure now cb s =
     (if failureThreshold cb \<le> failureCount cb + 1
      then (cb\<lparr>failureCount := failureCount cb + 1, state := OPEN,
               nextAttempt := fst (now s) + resetTimeout cb\<rparr>, snd (now s))
      else (cb\<lparr>failureCount := failureCount cb + 1\<rparr>, s))"
  by (cases "now s") (simp add: onFailure_def Let_def)

lemma executeTimes_opens:
  assumes "\<forall>s. isl (fst (fn s))" "state cb = CLOSED" "failureCount cb + n = failureThreshold cb" "0 < n"
  shows "\<exists>w. executeTimes n now fn cb s =
           (cb\<lparr>failureCount := failureThreshold cb, state := OPEN,
                nextAttempt := fst (now w) + resetTimeout cb\<rparr>, snd (now w))"
  using assms
proof (induction n arbitrary: cb s)
  case 0
  then show ?case by simp
next
  case (Suc n)
  obtain e s1 where fn: "fn s = (Inl e, s1)"
    using Suc.prems(1) by (metis isl_def prod.collapse)
  show ?case
  proof (cases "n = 0")
    case True
    with Suc.prems fn show ?thesis
      by (auto simp: execute_failure_closed onFailure_eq intro!: exI[of _ s1])
  next
    case False
    let ?cb1 = "cb\<lparr>failureCount := failureCount cb + 1\<rparr>"
    have step: "execute now fn cb s = (Inl (OperationError e), ?cb1, s1)"
      using Suc.prems False fn by (simp add: execute_failure_closed onFailure_eq)
    have "\<exists>w. executeTimes n now fn ?cb1 s1 =
           (?cb1\<lparr>failureCount := failureThreshold ?cb1, state := OPEN,
                nextAttempt := fst (now w) + resetTimeout ?cb1\<rparr>, snd (now w))"
      using Suc.prems False by (intro Suc.IH) auto
    then show ?thesis by (simp add: step)
  qed
qed

lemma execute_open_early:
  assumes "state cb = OPEN" "fst (now w) < nextAttempt cb"
  shows "execute now op cb w = (Inl CircuitOpen, cb, snd (now w))"
  using assms by (cases "now w") (simp add: execute_def)

lemma execute_open_late_success:
  assumes "state cb = OPEN" "\<not> fst (now w) < nextAttempt cb" "op (snd (now w)) = (Inr v, w2)"
  shows "execute now op cb w = (Inr v, cb\<lparr>failureCount := 0, state := CLOSED\<rparr>, w2)"
  using assms by (cases "now w") (simp add: execute_def onSuccess_def)

lemma execute_open_late_failure:
  assumes "state cb = OPEN" "\<not> fst (now w) < nextAttempt cb" "op (snd (now w)) = (Inl e, w2)"
    "failureThreshold cb \<le> failureCount cb"
  shows "execute now op cb w =
           (Inl (OperationError e),
            cb\<lparr>failureCount := failureCount cb + 1, state := OPEN,
               nextAttempt := fst (now w2) + resetTimeout cb\<rparr>, snd (now w2))"
  using assms by (cases "now w") (simp add: execute_def onFailure_eq)

text \<open>
  C3: starting from a closed breaker with no recorded failure, \<open>failureThreshold\<close>
  failing calls in a row open the circuit. The next call that reads a time before
  \<open>nextAttempt\<close> fails with the circuit-open error and leaves breaker and world as they
  were, whatever the wrapped operation is (it is not invoked). A call at or after
  \<open>nextAttempt\<close> runs the operation: its success closes the circuit with
  \<open>failureCount = 0\<close>, its failure opens it again with \<open>nextAttempt\<close> read afresh
  from the clock.
\<close>

theorem circuit_breaker_three_states:
  assumes "0 < failureThreshold cb" "state cb = CLOSED" "failureCount cb = 0"
    and "\<forall>s. isl (fst (fn s))"
    and "executeTimes (failureThreshold cb) now fn cb s = (cb', s')"
  shows "state cb' = OPEN \<and> failureCount cb' = failureThreshold cb
       \<and> (\<exists>w. nextAttempt cb' = fst (now w) + resetTimeout cb \<and> s' = snd (now w))
       \<and> (\<forall>w. fst (now w) < nextAttempt cb' \<longrightarrow>
              execute now op cb' w = (Inl CircuitOpen, cb', snd (now w)))
       \<and> (\<forall>w v w2. \<not> fst (now w) < nextAttempt cb' \<and> op (snd (now w)) = (Inr v, w2) \<longrightarrow>
              execute now op cb' w = (Inr v, cb'\<lparr>failureCount := 0, state := CLOSED\<rparr>, w2))
       \<and> (\<forall>w e w2. \<not> fst (now w) < nextAttempt cb' \<and> op (snd (now w)) = (Inl e, w2) \<longrightarrow>
              execute now op cb' w =
                (Inl (OperationError e),
                 cb'\<lparr>failureCount := failureThreshold cb + 1, state := OPEN,
                     nextAttempt := fst (now w2) + resetTimeout cb\<rparr>, snd (now w2)))"
proof -
  obtain w where w: "executeTimes (failureThreshold cb) now fn cb s =
           (cb\<lparr>failureCount := failureThreshold cb, state := OPEN,
                nextAttempt := fst (now w) + resetTimeout cb\<rparr>, snd (now w))"
    using executeTimes_opens[OF assms(4) assms(2), of "failureThreshold cb" now s] assms(1,3)
    by auto
  with assms(5) have cb': "cb' = cb\<lparr>failureCount := failureThreshold cb, state := OPEN,
                nextAttempt := fst (now w) + resetTimeout cb\<rparr>" and s': "s' = snd (now w)"
    by simp_all
  have 1: "state cb' = OPEN" "failureCount cb' = failureThreshold cb"
    "failureThreshold cb' = failureThreshold cb" "resetTimeout cb' = resetTimeout cb"
    by (simp_all add: cb')
  have 2: "\<exists>w. nextAttempt cb' = fst (now w) + resetTimeout cb \<and> s' = snd (now w)"
    using cb' s' by auto
  show ?thesis
    using 1 2
    by (auto simp: execute_open_early execute_open_late_success execute_open_late_failure)
qed

theorem circuit_breaker_three_states_witness:
  "0 < failureThreshold (new_CircuitBreaker \<lparr>opt_failureThreshold = None, opt_resetTimeout = None\<rparr> 0)
   \<and> state (new_CircuitBreaker \<lparr>opt_failureThreshold = None, opt_resetTimeout = None\<rparr> 0) = CLOSED
   \<and> failureCount (new_CircuitBreaker \<lparr>opt_failureThreshold = None, opt_resetTimeout = None\<rparr> 0) = 0
   \<and> (\<forall>s::int. isl (fst ((Inl ''down'' :: string + nat, s))))
   \<and> executeTimes 5 (\<lambda>t. (t, t + 1)) (\<lambda>s. (Inl ''down'' :: string + nat, s))
         (new_CircuitBreaker \<lparr>opt_failureThreshold = None, opt_resetTimeout = None\<rparr> 0) 0
       = (\<lparr>failureThreshold = 5, resetTimeout = 60000, state = OPEN, failureCount = 5,
            nextAttempt = 60000\<rparr>, 1)
   \<and> execute (\<lambda>t. (t, t + 1)) (\<lambda>s. (Inr (1::nat) :: string + nat, s + 10))
         \<lparr>failureThreshold = 5, resetTimeout = 60000, state = OPEN, failureCount = 5,
            nextAttempt = 60000\<rparr> 59999
       = (Inl CircuitOpen,
          \<lparr>failureThreshold = 5, resetTimeout = 60000, state = OPEN, failureCount = 5,
            nextAttempt = 60000\<rparr>, 60000)
   \<and> execute (\<lambda>t. (t, t + 1)) (\<lambda>s. (Inr (1::nat) :: string + nat, s + 10))
         \<lparr>failureThreshold = 5, resetTimeout = 60000, state = OPEN, failureCount = 5,
            nextAttempt = 60000\<rparr> 60000
       = (Inr 1,
          \<lparr>failureThreshold = 5, resetTimeout = 60000, state = CLOSED, failureCount = 0,
            nextAttempt = 60000\<rparr>, 60011)"
proof -
  let ?cb = "new_CircuitBreaker \<lparr>opt_failureThreshold = None, opt_resetTimeout = None\<rparr> 0"
  let ?now = "\<lambda>t::int. (t, t + 1)"
  let ?fn = "\<lambda>s::int. (Inl ''down'' :: string + nat, s)"
  let ?op = "\<lambda>s::int. (Inr (1::nat) :: string + nat, s + 10)"
  let ?cb' = "\<lparr>failureThreshold = 5, resetTimeout = 60000, state = OPEN, failureCount = 5,
            nextAttempt = 60000\<rparr>"
  have h1: "0 < failureThreshold ?cb" and h2: "state ?cb = CLOSED" and h3: "failureCount ?cb = 0"
    by (simp_all add: new_CircuitBreaker_def)
  have h4: "\<forall>s. isl (fst (?fn s))" by simp
  have h5: "executeTimes (failureThreshold ?cb) ?now ?fn ?cb 0 = (?cb', 1)"
    by (simp add: new_CircuitBreaker_def eval_nat_numeral execute_def onFailure_def)
  from circuit_breaker_three_states[OF h1 h2 h3 h4 h5, of ?op]
  have "execute ?now ?op ?cb' 59999 = (Inl CircuitOpen, ?cb', 60000)"
    and "execute ?now ?op ?cb' 60000 = (Inr 1, ?cb'\<lparr>failureCount := 0, state := CLOSED\<rparr>, 60011)"
    by simp_all
  with h1 h2 h3 h4 h5 show ?thesis
    by (simp add: new_CircuitBreaker_def)
qed

section \<open>Properties of chunkText\<close>

lemma ceil_div_step:
  assumes "0 < (n::nat)" "0 < d"
  shows "(d + n - 1) div n = Suc ((d - n + n - 1) div n)"
proof (cases "n \<le> d")
  case True
  define x where "x = d - n + n - 1"
  have "d + n - 1 = x + n" using True assms by (simp add: x_def)
  moreover have "(x + n) div n = Suc (x div n)" using assms by simp
  ultimately show ?thesis by (simp add: x_def)
next
  case False
  then have "d - n = 0" by simp
  moreover have "(n - 1) div n = 0" using assms by simp
  moreover have "(d + n - 1) div n = 1"
  proof -
    define y where "y = d - 1"
    have "d + n - 1 = y + n" using assms by (simp add: y_def)
    moreover have "(y + n) div n = Suc (y div n)" using assms by simp
    moreover have "y div n = 0" using False by (simp add: y_def)
    ultimately show ?thesis by simp
  qed
  ultimately show ?thesis by simp
qed

lemma chunkText_loop_chunks:
  assumes "0 < n"
  shows "\<exists>cs. chunkText_loop words n i chunks = Some (chunks @ cs)
            \<and> length cs = (length words - i + n - 1) div n
            \<and> (\<forall>k < length cs. cs ! k = join (str '' '') (take n (drop (i + k * n) words)))"
proof (induction "length words - i" arbitrary: i chunks rule: less_induct)
  case less
  show ?case
  proof (cases "i < length words")
    case False
    then have "chunkText_loop words n i chunks = Some (chunks @ [])"
      by (subst chunkText_loop.simps) simp
    moreover have "(length words - i + n - 1) div n = 0"
      using False assms by simp
    ultimately show ?thesis by auto
  next
    case True
    let ?c = "join (str '' '') (take n (drop i words))"
    have "length words - (i + n) < length words - i" using True assms by simp
    from less[OF this, of "chunks @ [?c]"]
    obtain cs where cs: "chunkText_loop words n (i + n) (chunks @ [?c]) = Some ((chunks @ [?c]) @ cs)"
      "length cs = (length words - (i + n) + n - 1) div n"
      "\<forall>k < length cs. cs ! k = join (str '' '') (take n (drop (i + n + k * n) words))"
      by blast
    have run: "chunkText_loop words n i chunks = Some (chunks @ (?c # cs))"
      using True cs(1) by (subst chunkText_loop.simps) simp
    have len: "length (?c # cs) = (length words - i + n - 1) div n"
      using ceil_div_step[OF assms, of "length words - i"] True cs(2)
      by (simp add: diff_diff_left)
    have nth: "\<forall>k < length (?c # cs). (?c # cs) ! k = join (str '' '') (take n (drop (i + k * n) words))"
    proof (intro allI impI)
      fix k assume "k < length (?c # cs)"
      then show "(?c # cs) ! k = join (str '' '') (take n (drop (i + k * n) words))"
        using cs(3) by (cases k) (auto simp: add.assoc add.commute)
    qed
    from run len nth show ?thesis by blast
  qed
qed


lemma str_space [simp]: "str '' '' = [32]"
  by (simp add: str_def)

lemma isSpace_32 [simp]: "isSpace 32"
  by (simp add: isSpace_def)

lemma ceil_div_gt:
  assumes "k < (m + n - 1) div n" "0 < (n::nat)"
  shows "k * n < m"
proof -
  have "Suc k \<le> (m + n - 1) div n" using assms(1) by simp
  then have "Suc k * n \<le> m + n - 1"
    using assms(2) by (simp add: less_eq_div_iff_mult_less_eq)
  then show ?thesis using assms(2) by simp
qed

text \<open>A run of consecutive words, joined by single spaces, splits into these words.\<close>

lemma split_runs_chunk:
  assumes "i < length (split_runs isSpace text)" "0 < n"
  shows "split_runs isSpace (join (str '' '') (take n (drop i (split_runs isSpace text))))
           = take n (drop i (split_runs isSpace text))"
proof -
  let ?words = "split_runs isSpace text"
  let ?ws = "take n (drop i ?words)"
  have 1: "?ws \<noteq> []" using assms by simp
  have 2: "\<forall>w \<in> set ?ws. \<forall>c \<in> set w. \<not> isSpace c"
    by (meson in_set_dropD in_set_takeD split_runs_no_sep)
  have 3: "\<forall>j. 0 < j \<and> Suc j < length ?ws \<longrightarrow> ?ws ! j \<noteq> []"
  proof (intro allI impI)
    fix j assume j: "0 < j \<and> Suc j < length ?ws"
    then have "?ws ! j = ?words ! (i + j)" using assms(1) by (simp add: nth_drop)
    moreover have "0 < i + j" "Suc (i + j) < length ?words" using j by auto
    ultimately show "?ws ! j \<noteq> []" using split_runs_inner_not_Nil by metis
  qed
  from split_runs_join[OF 1 2 isSpace_32 3] show ?thesis by simp
qed

text \<open>
  C6: for a text that is not blank and a positive \<open>wordsPerChunk\<close>, \<open>chunkText\<close> returns
  \<open>ceil(wordCount / wordsPerChunk)\<close> chunks; the words of chunk \<open>k\<close> are the words
  \<open>k * wordsPerChunk\<close> and following of the text, at most \<open>wordsPerChunk\<close> of them; a text
  of at most \<open>wordsPerChunk\<close> words comes back as the single chunk; 4500 words at 1000
  give five chunks of 1000, 1000, 1000, 1000 and 500 words, and 800 words give the text
  itself.
\<close>

theorem chunkText_chunks:
  assumes "trim text \<noteq> []" and "0 < wordsPerChunk"
  shows "\<exists>chunks. chunkText text wordsPerChunk = Some (Inr chunks)
     \<and> length chunks = (length (split_runs isSpace text) + wordsPerChunk - 1) div wordsPerChunk
     \<and> (\<forall>k < length chunks. split_runs isSpace (chunks ! k)
            = take wordsPerChunk (drop (k * wordsPerChunk) (split_runs isSpace text)))
     \<and> (\<forall>chunk \<in> set chunks. length (split_runs isSpace chunk) \<le> wordsPerChunk)
     \<and> (length (split_runs isSpace text) \<le> wordsPerChunk \<longrightarrow> chunks = [text])
     \<and> (length (split_runs isSpace text) = 4500 \<and> wordsPerChunk = 1000 \<longrightarrow>
          map (\<lambda>chunk. length (split_runs isSpace chunk)) chunks = [1000, 1000, 1000, 1000, 500])
     \<and> (length (split_runs isSpace text) = 800 \<and> wordsPerChunk = 1000 \<longrightarrow> chunks = [text])"
proof -
  let ?words = "split_runs isSpace text"
  let ?n = wordsPerChunk
  have wc: "0 < length ?words" by simp
  have nonblank: "\<not> (text = [] \<or> length (trim text) = 0)" using assms(1) by (auto simp: trim_def)
  obtain chunks where run: "chunkText text ?n = Some (Inr chunks)"
    and len: "length chunks = (length ?words + ?n - 1) div ?n"
    and nth: "\<forall>k < length chunks. split_runs isSpace (chunks ! k) = take ?n (drop (k * ?n) ?words)"
    and single: "length ?words \<le> ?n \<longrightarrow> chunks = [text]"
  proof (cases "length ?words \<le> ?n")
    case True
    have "chunkText text ?n = Some (Inr [text])"
      using True nonblank by (simp add: chunkText_def Let_def)
    moreover have "(length ?words + ?n - 1) div ?n = 1"
      using ceil_div_step[OF assms(2) wc] True assms(2) by simp
    ultimately show ?thesis using that[of "[text]"] True by simp
  next
    case False
    from chunkText_loop_chunks[OF assms(2), of ?words 0 "[]"]
    obtain cs where cs: "chunkText_loop ?words ?n 0 [] = Some cs"
      "length cs = (length ?words + ?n - 1) div ?n"
      "\<forall>k < length cs. cs ! k = join (str '' '') (take ?n (drop (k * ?n) ?words))"
      by auto
    have "chunkText text ?n = Some (Inr cs)"
      using False nonblank cs(1) by (simp add: chunkText_def Let_def)
    moreover have "\<forall>k < length cs. split_runs isSpace (cs ! k) = take ?n (drop (k * ?n) ?words)"
    proof (intro allI impI)
      fix k assume k: "k < length cs"
      then have "k * ?n < length ?words" using cs(2) assms(2) by (simp add: ceil_div_gt)
      from split_runs_chunk[OF this assms(2)] show
        "split_runs isSpace (cs ! k) = take ?n (drop (k * ?n) ?words)"
        using cs(3) k by simp
    qed
    ultimately show ?thesis using that[of cs] cs(2) False by simp
  qed
  have bound: "\<forall>chunk \<in> set chunks. length (split_runs isSpace chunk) \<le> ?n"
    using nth by (auto simp: in_set_conv_nth)
  have big: "map (\<lambda>chunk. length (split_runs isSpace chunk)) chunks = [1000, 1000, 1000, 1000, 500]"
    if "length ?words = 4500 \<and> ?n = 1000"
  proof (rule nth_equalityI)
    show "length (map (\<lambda>chunk. length (split_runs isSpace chunk)) chunks)
            = length [1000, 1000, 1000, 1000, 500 :: nat]"
      using len that by simp
  next
    fix k assume "k < length (map (\<lambda>chunk. length (split_runs isSpace chunk)) chunks)"
    then have k: "k < length chunks" "k < 5" using len that by simp_all
    have "split_runs isSpace (chunks ! k) = take ?n (drop (k * ?n) ?words)"
      using nth k(1) by blast
    then have "length (split_runs isSpace (chunks ! k)) = min (length ?words - k * ?n) ?n"
      by (simp only: length_take length_drop)
    then have "length (split_runs isSpace (chunks ! k)) = min (4500 - k * 1000) 1000"
      using that by (simp only:)
    moreover have "k = 0 \<or> k = 1 \<or> k = 2 \<or> k = 3 \<or> k = 4" using k(2) by linarith
    moreover have "map (\<lambda>chunk. length (split_runs isSpace chunk)) chunks ! k
                     = length (split_runs isSpace (chunks ! k))"
      using k(1) by simp
    ultimately show "map (\<lambda>chunk. length (split_runs isSpace chunk)) chunks ! k
                 = [1000, 1000, 1000, 1000, 500] ! k"
      by (elim disjE) simp_all
  qed
  have small: "chunks = [text]" if "length ?words = 800 \<and> ?n = 1000"
    using single that by simp
  show ?thesis
    by (intro exI[of _ chunks] conjI;
        (fact run len nth bound single | (rule impI, rule big, assumption)
         | (rule impI, rule small, assumption)))
qed

lemma split_runs_words_of_a: "0 < n \<Longrightarrow> split_runs isSpace (words_of_a n) = replicate n (str ''a'')"
  unfolding words_of_a_def str_space
  by (rule split_runs_join) (auto simp: str_def isSpace_def)

lemma trim_words_of_a: "0 < n \<Longrightarrow> trim (words_of_a n) \<noteq> []"
proof -
  assume "0 < n"
  then obtain m where "n = Suc m" by (cases n) auto
  then have "97 \<in> set (words_of_a n)"
    by (cases m) (simp_all add: words_of_a_def str_def)
  moreover have "\<not> isSpace 97" by (simp add: isSpace_def)
  ultimately show ?thesis unfolding trim_eq_Nil_iff by blast
qed

theorem chunkText_chunks_witness:
  "trim (words_of_a 4500) \<noteq> [] \<and> (0::nat) < 1000
   \<and> length (split_runs isSpace (words_of_a 4500)) = 4500
   \<and> (\<exists>chunks. chunkText (words_of_a 4500) 1000 = Some (Inr chunks) \<and> length chunks = 5
        \<and> map (\<lambda>chunk. length (split_runs isSpace chunk)) chunks = [1000, 1000, 1000, 1000, 500])
   \<and> trim (words_of_a 800) \<noteq> []
   \<and> length (split_runs isSpace (words_of_a 800)) = 800
   \<and> chunkText (words_of_a 800) 1000 = Some (Inr [words_of_a 800])"
proof -
  have t1: "trim (words_of_a 4500) \<noteq> []" and t2: "trim (words_of_a 800) \<noteq> []"
    by (simp_all add: trim_words_of_a)
  have n: "(0::nat) < 1000" by simp
  have l1: "length (split_runs isSpace (words_of_a 4500)) = 4500"
    and l2: "length (split_runs isSpace (words_of_a 800)) = 800"
    by (simp_all add: split_runs_words_of_a)
  from chunkText_chunks[OF t1 n] obtain chunks where c:
    "chunkText (words_of_a 4500) 1000 = Some (Inr chunks)"
    "length chunks = (length (split_runs isSpace (words_of_a 4500)) + 1000 - 1) div 1000"
    "length (split_runs isSpace (words_of_a 4500)) = 4500 \<and> (1000::nat) = 1000 \<longrightarrow>
       map (\<lambda>chunk. length (split_runs isSpace chunk)) chunks = [1000, 1000, 1000, 1000, 500]"
    by (elim exE conjE) (rule that; assumption)
  have "length chunks = 5" unfolding c(2) l1 by simp
  moreover have "map (\<lambda>chunk. length (split_runs isSpace chunk)) chunks = [1000, 1000, 1000, 1000, 500]"
    using c(3) l1 by simp
  ultimately
  have a: "\<exists>chunks. chunkText (words_of_a 4500) 1000 = Some (Inr chunks) \<and> length chunks = 5
        \<and> map (\<lambda>chunk. length (split_runs isSpace chunk)) chunks = [1000, 1000, 1000, 1000, 500]"
    using c(1) by (intro exI[of _ chunks] conjI)
  from chunkText_chunks[OF t2 n] obtain chunks' where c':
    "chunkText (words_of_a 800) 1000 = Some (Inr chunks')"
    "length (split_runs isSpace (words_of_a 800)) = 800 \<and> (1000::nat) = 1000 \<longrightarrow> chunks' = [words_of_a 800]"
    by (elim exE conjE) (rule that; assumption)
  with l2 have b: "chunkText (words_of_a 800) 1000 = Some (Inr [words_of_a 800])"
    by simp
  show ?thesis
    by (intro conjI; fact t1 t2 n l1 l2 a b)
qed

section \<open>Substrings and the final clean-up\<close>

subsection \<open>Substrings\<close>

lemma trim_substring: "\<exists>p q. s = p @ trim s @ q"
proof -
  let ?d = "dropWhile isSpace s"
  have "s = takeWhile isSpace s @ ?d" by simp
  moreover have "rev ?d = takeWhile isSpace (rev ?d) @ dropWhile isSpace (rev ?d)" by simp
  then have "?d = trim s @ rev (takeWhile isSpace (rev ?d))"
    unfolding trim_def by (metis rev_append rev_rev_ident)
  ultimately show ?thesis by metis
qed


lemma length_trim_le: "length (trim s) \<le> length s"
proof -
  obtain p q where "s = p @ trim s @ q" using trim_substring by blast
  then have "length s = length p + length (trim s) + length q" by (metis length_append add.assoc)
  then show ?thesis by simp
qed

lemma trim_ends:
  assumes "trim s \<noteq> []"
  shows "\<not> isSpace (hd (trim s))" and "\<not> isSpace (last (trim s))"
proof -
  let ?d = "dropWhile isSpace s"
  let ?e = "dropWhile isSpace (rev ?d)"
  have e: "?e \<noteq> []" using assms by (simp add: trim_def)
  have "?e = []" if "?d = []" unfolding that by simp
  with e have d: "?d \<noteq> []" by blast
  have "last (trim s) = hd ?e" using e by (simp add: trim_def last_rev)
  then show "\<not> isSpace (last (trim s))" using e hd_dropWhile by metis
  have "hd (trim s) = last ?e" using e by (simp add: trim_def hd_rev)
  also have "\<dots> = last (rev ?d)"
    using e by (metis append_Nil2 last_appendR takeWhile_dropWhile_id)
  also have "\<dots> = hd ?d" using d by (simp add: last_rev)
  finally show "\<not> isSpace (hd (trim s))" using d hd_dropWhile by metis
qed

lemma trim_append_keeps:
  assumes "A \<noteq> []" "\<not> isSpace (hd A)" "\<not> isSpace (last A)"
  shows "trim (A @ B) = A @ rev (dropWhile isSpace (rev B))"
proof -
  have 1: "dropWhile isSpace (A @ B) = A @ B"
    using assms(1,2) by (cases A) auto
  have "rev A \<noteq> []" "\<not> isSpace (hd (rev A))" using assms by (simp_all add: hd_rev)
  then have "dropWhile isSpace (rev A) = rev A" by (cases "rev A") auto
  then have 2: "dropWhile isSpace (rev B @ rev A) = dropWhile isSpace (rev B) @ rev A"
    by (simp add: dropWhile_append)
  show ?thesis by (simp add: trim_def 1 2)
qed



subsection \<open>Single-spaced strings\<close>

lemma singleSpaced_append: "singleSpaced (a @ b) \<Longrightarrow> singleSpaced a \<and> singleSpaced b"
proof (induction a)
  case Nil
  then show ?case by simp
next
  case (Cons c a)
  then show ?case by (cases a) (auto simp: hd_append split: if_splits)
qed

lemma singleSpaced_substring: "singleSpaced s \<Longrightarrow> s = p @ t @ q \<Longrightarrow> singleSpaced t"
  using singleSpaced_append by blast

lemma singleSpaced_trim: "singleSpaced s \<Longrightarrow> singleSpaced (trim s)"
  using singleSpaced_substring trim_substring by blast

lemma replace_spaces_hd:
  "s \<noteq> [] \<Longrightarrow> \<not> isSpace (hd s) \<Longrightarrow> replace_spaces s \<noteq> [] \<and> hd (replace_spaces s) = hd s"
  by (cases s) auto




subsection \<open>What the final clean-up keeps\<close>





section \<open>Properties of the structured summary\<close>













section \<open>Short texts and the retry predicate\<close>

lemma mentions_cong:
  assumes "toLowerCase rt' = toLowerCase rt"
  shows "mentions rt' = mentions rt"
  using assms by (intro ext) (simp add: mentions_def)

lemma wordFrequencies_cong:
  assumes "toLowerCase rt' = toLowerCase rt"
  shows "wordFrequencies rt' = wordFrequencies rt"
  using assms by (intro ext) (simp add: wordFrequencies_def)

lemma extractKeyInformation_cong:
  assumes "toLowerCase rt' = toLowerCase rt"
  shows "extractKeyInformation rt' = extractKeyInformation rt"
  by (intro ext) (simp add: extractKeyInformation_def mentions_cong[OF assms] wordFrequencies_cong[OF assms])

lemma introductionBlock_cong:
  assumes "toLowerCase rt' = toLowerCase rt"
  shows "introductionBlock rt' = introductionBlock rt"
  by (intro ext) (simp add: introductionBlock_def problemSentenceOf_def mentions_cong[OF assms])

lemma createStructuredSummary_cong:
  assumes "toLowerCase rt' = toLowerCase rt"
  shows "createStructuredSummary rt' = createStructuredSummary rt"
  by (intro ext) (simp add: createStructuredSummary_def introductionBlock_cong[OF assms]
      approachBlock_def findingsBlock_def mentions_cong[OF assms])

lemma extractiveSummary_cong:
  assumes "toLowerCase rt' = toLowerCase rt"
  shows "extractiveSummary rt' text = extractiveSummary rt text"
  by (simp add: extractiveSummary_def extractKeyInformation_cong[OF assms]
      createStructuredSummary_cong[OF assms])

lemma trim_Nil [simp]: "trim [] = []"
  by (simp add: trim_def)

lemma blank_iff: "(text = [] \<or> length (trim text) = 0) \<longleftrightarrow> trim text = []"
  by auto

text \<open>
  C10, as amended: for every text that is not blank and has fewer than 500 words,
  \<open>summarizeText\<close> returns exactly the extractive summary and leaves the breaker and the
  outside world untouched, so that the result is the same under any behaviour of the
  inference service; a blank text is rejected with an error, also without any request.
\<close>

theorem summarizeText_short_is_extractive:
  assumes "trim text \<noteq> []" and "length (split_runs isSpace text) < 500"
  shows "summarizeText rt text s
           = (Inr (createStructuredSummary rt (extractKeyInformation rt text)), s)
       \<and> (toLowerCase rt' = toLowerCase rt \<longrightarrow>
            fst (summarizeText rt' text s') = fst (summarizeText rt text s))
       \<and> (trim blank = [] \<longrightarrow> summarizeText rt blank s = (Inl textEmptyError, s))"
proof -
  have nb: "\<not> (text = [] \<or> length (trim text) = 0)" using assms(1) blank_iff by blast
  have run: "summarizeText rt text s = (Inr (extractiveSummary rt text), s)" for rt :: "'c runtime" and s
    using nb assms(2) by (simp add: summarizeText_def Let_def)
  have "fst (summarizeText rt' text s') = fst (summarizeText rt text s)"
    if "toLowerCase rt' = toLowerCase rt"
    by (simp add: run extractiveSummary_cong[OF that])
  moreover have "summarizeText rt blank s = (Inl textEmptyError, s)" if "trim blank = []"
    using that by (simp add: summarizeText_def)
  ultimately show ?thesis using run[of rt s] by (simp add: extractiveSummary_def)
qed

theorem summarizeText_short_is_extractive_witness:
  "trim (str ''hello world'') \<noteq> [] \<and> length (split_runs isSpace (str ''hello world'')) < 500
   \<and> summarizeText offlineRuntime (str ''hello world'') (hfCircuitBreaker 0, 0)
       = (Inr (createStructuredSummary offlineRuntime (extractKeyInformation offlineRuntime (str ''hello world''))),
          (hfCircuitBreaker 0, 0))
   \<and> toLowerCase goneRuntime = toLowerCase offlineRuntime
   \<and> fst (summarizeText goneRuntime (str ''hello world'') (hfCircuitBreaker 0, 7))
       = fst (summarizeText offlineRuntime (str ''hello world'') (hfCircuitBreaker 0, 0))
   \<and> trim (str '' '') = []
   \<and> summarizeText offlineRuntime (str '' '') (hfCircuitBreaker 0, 0) = (Inl textEmptyError, (hfCircuitBreaker 0, 0))"
proof -
  have 1: "trim (str ''hello world'') \<noteq> []"
    by (simp add: str_def trim_def isSpace_def)
  have 2: "length (split_runs isSpace (str ''hello world'')) < 500"
    by (simp add: str_def isSpace_def)
  have 3: "toLowerCase goneRuntime = toLowerCase offlineRuntime"
    by (simp add: goneRuntime_def offlineRuntime_def fixedRuntime_def)
  have 4: "trim (str '' '') = []"
    by (simp add: str_def trim_def isSpace_def)
  from summarizeText_short_is_extractive[OF 1 2, of offlineRuntime "(hfCircuitBreaker 0, 0)"
      goneRuntime "(hfCircuitBreaker 0, 7)" "str '' ''"] 1 2 3 4
  show ?thesis by simp
qed

theorem summarizeText_blank_counterexample:
  "length (split_runs isSpace (str '' '')) < 500
   \<and> fst (summarizeText offlineRuntime (str '' '') (hfCircuitBreaker 0, 0)) = Inl textEmptyError
   \<and> fst (summarizeText offlineRuntime (str '' '') (hfCircuitBreaker 0, 0))
       \<noteq> Inr (createStructuredSummary offlineRuntime (extractKeyInformation offlineRuntime (str '' '')))"
  by (simp add: summarizeText_def str_def trim_def isSpace_def)

text \<open>
  C4: a response with status 410 is resolved by the HTTP client; the error thrown for it
  inside the \<open>try\<close> block is caught by the \<open>catch\<close> block and replaced by a network error
  without \<open>response\<close>, which \<open>shouldRetry\<close> accepts. One call of \<open>callHuggingFace\<close> therefore
  sends four requests to the deprecated endpoint, and likewise for status 404.
\<close>

lemma request_fixed_4xx:
  "st = 410 \<or> st = 404 \<Longrightarrow>
   request (fixedRuntime (Response st txt d)) model input params w
     = (Inl (Error (NetworkError (if st = 410
               then Text (str ''API endpoint deprecated. Please update the application.'')
               else ApiError st txt))), Suc w)"
  by (auto simp: request_def hfAxios_post_def fixedRuntime_def checkResponse_def rethrow_def Error_def)

lemma shouldRetry_no_response [simp]: "shouldRetry (Error m)"
  by (simp add: shouldRetry_def Error_def)

lemma retry_fixed_4xx:
  "st = 410 \<or> st = 404 \<Longrightarrow>
   retryOnCondition (request (fixedRuntime (Response st txt d)) model input params)
       (\<lambda>error w1. (shouldRetry error, w1)) 3 0
     = (Rejected (Error (NetworkError (if st = 410
               then Text (str ''API endpoint deprecated. Please update the application.'')
               else ApiError st txt))), 4)"
  by (simp add: retryOnCondition_def retryOnCondition_from.simps request_fixed_4xx)

theorem deprecated_endpoint_is_retried:
  "callHuggingFace goneRuntime model input params (hfCircuitBreaker 0, 0)
     = (Inl (Error (NetworkError (Text (str ''API endpoint deprecated. Please update the application.'')))),
        (hfCircuitBreaker 0)\<lparr>failureCount := 1\<rparr>, 4)
   \<and> shouldRetry (Error (NetworkError (Text (str ''API endpoint deprecated. Please update the application.''))))
   \<and> snd (snd (callHuggingFace (fixedRuntime (Response 404 (str ''Not Found'') JNull)) model input params
                 (hfCircuitBreaker 0, 0))) = 4"
  by (simp add: callHuggingFace_def execute_def hfCircuitBreaker_def new_CircuitBreaker_def
      retry_fixed_4xx goneRuntime_def onFailure_def Let_def)

section \<open>The cascade under failing requests\<close>

subsection \<open>When every request fails\<close>








subsection \<open>Under any behaviour of the network\<close>


lemma generateMCQs_total:
  "trim text \<noteq> [] \<Longrightarrow> \<exists>ms s'. generateMCQs rt text s = (Inr ms, s')"
  by (cases "generateWith rt text mcqModels s") (auto simp: generateMCQs_def)

section \<open>Properties of the fallback questions\<close>

subsection \<open>The fallback questions\<close>








section \<open>Characters that survive the clean-up\<close>

subsection \<open>Counting the characters that are not white space\<close>

lemma nonSpaces_append [simp]: "nonSpaces (a @ b) = nonSpaces a + nonSpaces b"
  by (simp add: nonSpaces_def)

lemma nonSpaces_Nil [simp]: "nonSpaces [] = 0"
  by (simp add: nonSpaces_def)

lemma nonSpaces_Cons: "nonSpaces (c # s) = (if isSpace c then 0 else 1) + nonSpaces s"
  by (simp add: nonSpaces_def)

lemma nonSpaces_le_length: "nonSpaces s \<le> length s"
  by (simp add: nonSpaces_def)

lemma nonSpaces_rev [simp]: "nonSpaces (rev s) = nonSpaces s"
  by (simp add: nonSpaces_def flip: rev_filter)

lemma nonSpaces_dropWhile [simp]: "nonSpaces (dropWhile isSpace s) = nonSpaces s"
  by (induction s) (auto simp: nonSpaces_Cons)

lemma nonSpaces_trim [simp]: "nonSpaces (trim s) = nonSpaces s"
  by (simp add: trim_def)

lemma nonSpaces_replace_spaces [simp]: "nonSpaces (replace_spaces s) = nonSpaces s"
proof (induction s rule: replace_spaces.induct)
  case 1
  then show ?case by simp
next
  case (2 c cs)
  then show ?case by (cases "isSpace c") (simp_all add: nonSpaces_Cons)
qed

lemma nonSpaces_takeWhile [simp]: "nonSpaces (takeWhile isSpace s) = 0"
  by (induction s) (auto simp: nonSpaces_Cons)

lemma nonSpaces_drop_spaces:
  "n \<le> length (takeWhile isSpace s) \<Longrightarrow> nonSpaces (drop n s) = nonSpaces s"
proof -
  assume n: "n \<le> length (takeWhile isSpace s)"
  have "s = takeWhile isSpace s @ dropWhile isSpace s" by simp
  then have "drop n s = drop n (takeWhile isSpace s) @ dropWhile isSpace s"
    using n by (metis drop_append diff_is_0_eq drop0)
  moreover have "nonSpaces (drop n (takeWhile isSpace s)) = 0"
    by (metis add_is_0 append_take_drop_id nonSpaces_append nonSpaces_takeWhile)
  ultimately show ?thesis by simp
qed

lemma length_upto_last_newline: "length (upto_last_newline run) \<le> length run"
  unfolding upto_last_newline_def
  by (metis length_dropWhile_le length_rev)

lemma nonSpaces_replace_blank_lines [simp]: "nonSpaces (replace_blank_lines s) = nonSpaces s"
proof (induction s rule: replace_blank_lines.induct)
  case 1
  then show ?case by simp
next
  case (2 c cs)
  show ?case
  proof (cases "c = 10 \<and> 2 \<le> count_list (takeWhile isSpace cs) 10")
    case True
    have "nonSpaces (drop (length (upto_last_newline (takeWhile isSpace cs))) cs) = nonSpaces cs"
      by (rule nonSpaces_drop_spaces) (rule length_upto_last_newline)
    with True "2.IH"(1) show ?thesis by (simp add: nonSpaces_Cons isSpace_def)
  next
    case False
    with "2.IH"(2) show ?thesis by (auto simp: nonSpaces_Cons)
  qed
qed

text \<open>Folding full stops removes at most one of every two characters that are not white space.\<close>

lemma nonSpaces_replace_dots: "nonSpaces s \<le> 2 * nonSpaces (replace_dots s)"
proof (induction s rule: replace_dots.induct)
  case 1
  then show ?case by simp
next
  case (2 c cs)
  let ?d = "dropWhile isSpace cs"
  show ?case
  proof (cases "c = 46 \<and> ?d \<noteq> [] \<and> hd ?d = 46")
    case True
    then have d: "?d = 46 # tl ?d" by (cases ?d) auto
    have "nonSpaces cs = nonSpaces ?d" by simp
    also have "\<dots> = 1 + nonSpaces (tl ?d)"
      by (subst d) (simp add: nonSpaces_Cons isSpace_def)
    finally have "nonSpaces (c # cs) = 2 + nonSpaces (tl ?d)"
      using True by (simp add: nonSpaces_Cons isSpace_def)
    with True "2.IH"(1) show ?thesis by (simp add: nonSpaces_Cons isSpace_def)
  next
    case False
    with "2.IH"(2) show ?thesis by (auto simp: nonSpaces_Cons)
  qed
qed

lemma nonSpaces_tidy: "nonSpaces s \<le> 2 * length (tidy s)"
proof -
  let ?x = "replace_blank_lines (replace_spaces (trim s))"
  have "nonSpaces s = nonSpaces ?x" by simp
  also have "\<dots> \<le> 2 * nonSpaces (replace_dots ?x)" by (rule nonSpaces_replace_dots)
  also have "\<dots> = 2 * nonSpaces (tidy s)" by (simp add: tidy_def)
  also have "\<dots> \<le> 2 * length (tidy s)" using nonSpaces_le_length by simp
  finally show ?thesis .
qed

text \<open>In a single-spaced string at least every second character is not white space.\<close>

lemma singleSpaced_dense:
  "singleSpaced s \<Longrightarrow>
     length s \<le> 2 * nonSpaces s + 1 \<and> (s = [] \<or> \<not> isSpace (hd s) \<longrightarrow> length s \<le> 2 * nonSpaces s)"
proof (induction s)
  case Nil
  then show ?case by simp
next
  case (Cons c s)
  then have IH: "length s \<le> 2 * nonSpaces s + 1"
    "s = [] \<or> \<not> isSpace (hd s) \<longrightarrow> length s \<le> 2 * nonSpaces s" by simp_all
  show ?case
  proof (cases "isSpace c")
    case True
    with Cons.prems have "s = [] \<or> \<not> isSpace (hd s)" by simp
    with IH(2) have "length s \<le> 2 * nonSpaces s" by blast
    with True show ?thesis by (simp add: nonSpaces_Cons)
  next
    case False
    with IH(1) show ?thesis by (simp add: nonSpaces_Cons)
  qed
qed

lemma singleSpaced_take: "singleSpaced s \<Longrightarrow> singleSpaced (take n s)"
  by (metis append_take_drop_id singleSpaced_append)

section \<open>Summaries of long paragraphs\<close>

subsection \<open>A long single paragraph always yields a summary\<close>

lemma split_paragraphs_no_newline: "10 \<notin> set t \<Longrightarrow> split_paragraphs t = [t]"
  by (induction t) auto

lemma nonSpaces_Conclusion: "nonSpaces (str ''Conclusion: '') = 11"
  by (simp add: str_def nonSpaces_def isSpace_def)

lemma extractiveSummary_long:
  assumes "10 \<notin> set t" "singleSpaced (trim t)" "200 \<le> length (trim t)"
  shows "50 < length (extractiveSummary rt t)"
proof -
  let ?e = "extractKeyInformation rt t"
  have len: "200 \<le> length t" using assms(3) length_trim_le[of t] by simp
  have "paragraphs ?e = [t]"
    using assms(1,3) by (simp add: extractKeyInformation_def Let_def split_paragraphs_no_newline)
  moreover have "t \<noteq> []" using len by auto
  ultimately have "conclusionBlock (paragraphs ?e) = str ''Conclusion: '' @ take 200 (trim t) @
      ((if 200 < length (trim t) then str ''...'' else []) @
       (if endsSentence (trim t) then [] else str ''.''))"
    using len by (simp add: conclusionBlock_def Let_def)
  then obtain X where block: "conclusionBlock (paragraphs ?e) = str ''Conclusion: '' @ take 200 (trim t) @ X"
    by blast
  have "singleSpaced (take 200 (trim t))" using assms(2) by (rule singleSpaced_take)
  then have "length (take 200 (trim t)) \<le> 2 * nonSpaces (take 200 (trim t)) + 1"
    using singleSpaced_dense by blast
  then have "100 \<le> nonSpaces (take 200 (trim t))" using assms(3) by simp
  then have "111 \<le> nonSpaces (conclusionBlock (paragraphs ?e))"
    unfolding block by (simp add: nonSpaces_Conclusion)
  then have "111 \<le> nonSpaces (introductionBlock rt (introSection ?e) @
       mainPointsBlock (importantSentences ?e) @ approachBlock rt (importantSentences ?e) @
       findingsBlock rt (importantSentences ?e) @ conclusionBlock (paragraphs ?e))"
    by simp
  also have "\<dots> \<le> 2 * length (extractiveSummary rt t)"
    unfolding extractiveSummary_def createStructuredSummary_def by (rule nonSpaces_tidy)
  finally show ?thesis by simp
qed

subsection \<open>Words joined by single spaces\<close>

lemma singleSpaced_no_space: "\<forall>c \<in> set x. \<not> isSpace c \<Longrightarrow> singleSpaced y \<Longrightarrow> singleSpaced (x @ y)"
  by (induction x) auto

lemma join_hd_not_space:
  assumes "ws \<noteq> []" "\<forall>w \<in> set ws. \<forall>c \<in> set w. \<not> isSpace c"
    and "\<forall>j. 0 < j \<and> Suc j < length ws \<longrightarrow> ws ! j \<noteq> []"
    and "hd ws \<noteq> [] \<or> length ws = 1"
  shows "join [32] ws = [] \<or> \<not> isSpace (hd (join [32] ws))"
proof (cases "hd ws = []")
  case True
  with assms(1,4) show ?thesis by (cases ws) auto
next
  case False
  then obtain c cs where hd: "hd ws = c # cs" by (cases "hd ws") auto
  with assms(1) have "hd (join [32] ws) = c" by (cases ws) (simp_all add: join_Cons)
  moreover have "\<not> isSpace c" using assms(1,2) hd by (metis list.set_intros(1) list.set_sel(1))
  ultimately show ?thesis by simp
qed

lemma singleSpaced_join:
  assumes "\<forall>w \<in> set ws. \<forall>c \<in> set w. \<not> isSpace c"
    and "\<forall>j. 0 < j \<and> Suc j < length ws \<longrightarrow> ws ! j \<noteq> []"
  shows "singleSpaced (join [32] ws)"
  using assms
proof (induction ws)
  case Nil
  then show ?case by simp
next
  case (Cons x ws)
  show ?case
  proof (cases "ws = []")
    case True
    then show ?thesis using Cons.prems(1) singleSpaced_no_space[of x "[]"] by simp
  next
    case False
    have inner: "\<forall>j. 0 < j \<and> Suc j < length ws \<longrightarrow> ws ! j \<noteq> []"
    proof (intro allI impI)
      fix j assume "0 < j \<and> Suc j < length ws"
      then have "0 < Suc j \<and> Suc (Suc j) < length (x # ws)" by simp
      with Cons.prems(2) have "(x # ws) ! Suc j \<noteq> []" by blast
      then show "ws ! j \<noteq> []" by simp
    qed
    have spacefree: "\<forall>w \<in> set ws. \<forall>c \<in> set w. \<not> isSpace c" using Cons.prems(1) by simp
    have IH: "singleSpaced (join [32] ws)" using Cons.IH[OF spacefree inner] .
    have "hd ws \<noteq> [] \<or> length ws = 1"
    proof (rule ccontr)
      assume "\<not> (hd ws \<noteq> [] \<or> length ws = 1)"
      then have "hd ws = []" "length ws \<noteq> 1" by auto
      with False have "0 < (1::nat) \<and> Suc 1 < length (x # ws)" by (cases ws) auto
      with Cons.prems(2) have "(x # ws) ! 1 \<noteq> []" by blast
      with \<open>hd ws = []\<close> False show False by (simp add: hd_conv_nth)
    qed
    from join_hd_not_space[OF False spacefree inner this]
    have "singleSpaced (32 # join [32] ws)" using IH by simp
    then have "singleSpaced (x @ 32 # join [32] ws)"
      using Cons.prems(1) by (intro singleSpaced_no_space) auto
    then show ?thesis using False by (simp add: join_Cons)
  qed
qed

lemma length_join_ge: "length ws \<le> length (join [d] ws) + 1"
  by (induction ws) (auto simp: join_Cons)

lemma set_join_subset: "set (join [d] ws) \<subseteq> insert d (\<Union>(set ` set ws))"
  by (induction ws) (auto simp: join_Cons)

text \<open>The first of several chunks of at least 402 words has a summary of more than 50 characters.\<close>

lemma extractiveSummary_words_long:
  assumes "\<forall>w \<in> set ws. \<forall>c \<in> set w. \<not> isSpace c"
    and "\<forall>j. 0 < j \<and> Suc j < length ws \<longrightarrow> ws ! j \<noteq> []"
    and "402 \<le> length ws"
  shows "50 < length (extractiveSummary rt (join [32] ws))"
    and "trim (join [32] ws) \<noteq> []"
proof -
  let ?t = "join [32] ws"
  have single: "singleSpaced ?t" using assms(1,2) by (rule singleSpaced_join)
  have "10 \<notin> set ?t"
  proof
    assume "10 \<in> set ?t"
    then have "10 \<in> insert 32 (\<Union>(set ` set ws))" using set_join_subset by blast
    then obtain w where "w \<in> set ws" "10 \<in> set w" by auto
    with assms(1) have "\<not> isSpace 10" by blast
    then show False by (simp add: isSpace_def)
  qed
  moreover have "singleSpaced (trim ?t)" using single by (rule singleSpaced_trim)
  moreover have long: "200 \<le> length (trim ?t)"
  proof -
    have "length ?t \<le> 2 * nonSpaces ?t + 1" using single singleSpaced_dense by blast
    moreover have "401 \<le> length ?t" using length_join_ge[of ws 32] assms(3) by simp
    ultimately have "200 \<le> nonSpaces ?t" by simp
    also have "\<dots> = nonSpaces (trim ?t)" by simp
    also have "\<dots> \<le> length (trim ?t)" by (rule nonSpaces_le_length)
    finally show ?thesis .
  qed
  ultimately show "50 < length (extractiveSummary rt ?t)" by (rule extractiveSummary_long)
  show "trim ?t \<noteq> []" using long by auto
qed

section \<open>Summaries are trimmed\<close>

subsection \<open>Every summary is trimmed\<close>

lemma trimmedI: "s \<noteq> [] \<Longrightarrow> \<not> isSpace (hd s) \<Longrightarrow> \<not> isSpace (last s) \<Longrightarrow> trim s = s"
  using trim_append_keeps[of s "[]"] by simp

lemma trimmedD: "trim s = s \<Longrightarrow> s \<noteq> [] \<Longrightarrow> \<not> isSpace (hd s) \<and> \<not> isSpace (last s)"
  using trim_ends[of s] by simp

lemma trim_trim [simp]: "trim (trim s) = trim s"
proof (cases "trim s = []")
  case True
  then show ?thesis by simp
next
  case False
  then show ?thesis using trim_ends[OF False] by (intro trimmedI)
qed

lemma tidy_trimmed: "trim (tidy s) = tidy s"
  by (simp add: tidy_def)

lemma extractiveSummary_trimmed: "trim (extractiveSummary rt t) = extractiveSummary rt t"
  by (simp add: extractiveSummary_def createStructuredSummary_def tidy_trimmed)

lemma replace_spaces_last:
  "s \<noteq> [] \<Longrightarrow> \<not> isSpace (last s) \<Longrightarrow> replace_spaces s \<noteq> [] \<and> last (replace_spaces s) = last s"
proof (induction s rule: replace_spaces.induct)
  case 1
  then show ?case by simp
next
  case (2 c cs)
  show ?case
  proof (cases "isSpace c")
    case True
    with "2.prems" have cs: "cs \<noteq> []" "\<not> isSpace (last cs)" by (auto split: if_splits)
    let ?d = "dropWhile isSpace cs"
    have d: "?d \<noteq> []" using cs by (metis dropWhile_eq_Nil_conv last_in_set)
    then have "last ?d = last cs"
      by (metis append_Nil2 last_appendR takeWhile_dropWhile_id)
    with "2.IH"(1)[OF True d] cs(2) True "2.prems" cs(1) show ?thesis by simp
  next
    case False
    show ?thesis
    proof (cases "cs = []")
      case True
      with False show ?thesis by simp
    next
      case ne: False
      with "2.prems" have "\<not> isSpace (last cs)" by simp
      with "2.IH"(2)[OF False ne] False ne show ?thesis by simp
    qed
  qed
qed

lemma replace_dots_hd:
  "s \<noteq> [] \<Longrightarrow> replace_dots s \<noteq> [] \<and> hd (replace_dots s) = hd s"
  by (cases s) auto

lemma replace_dots_last:
  "s \<noteq> [] \<Longrightarrow> \<not> isSpace (last s) \<Longrightarrow>
   replace_dots s \<noteq> [] \<and> \<not> isSpace (last (replace_dots s))"
proof (induction s rule: replace_dots.induct)
  case 1
  then show ?case by simp
next
  case (2 c cs)
  let ?d = "dropWhile isSpace cs"
  show ?case
  proof (cases "c = 46 \<and> ?d \<noteq> [] \<and> hd ?d = 46")
    case True
    show ?thesis
    proof (cases "tl ?d = []")
      case tl: True
      with True show ?thesis by (simp add: isSpace_def)
    next
      case tl: False
      have "cs \<noteq> []" using True by auto
      then have "last (c # cs) = last cs" by simp
      also have "\<dots> = last ?d"
        using True by (metis append_Nil2 last_appendR takeWhile_dropWhile_id)
      also have "\<dots> = last (tl ?d)" using tl by (metis True last_tl)
      finally have "\<not> isSpace (last (tl ?d))" using "2.prems"(2) by simp
      with "2.IH"(1)[OF True tl] True show ?thesis by simp
    qed
  next
    case False
    show ?thesis
    proof (cases "cs = []")
      case True
      with False "2.prems" show ?thesis by simp
    next
      case ne: False
      with "2.prems" have "\<not> isSpace (last cs)" by simp
      with "2.IH"(2)[OF False ne] False ne show ?thesis by auto
    qed
  qed
qed

lemma cleaned_trimmed:
  assumes "trim s \<noteq> []"
  shows "trim (replace_dots (replace_spaces (trim s))) = replace_dots (replace_spaces (trim s))"
proof -
  have 1: "\<not> isSpace (hd (trim s))" "\<not> isSpace (last (trim s))" using trim_ends[OF assms] by blast+
  have 2: "replace_spaces (trim s) \<noteq> []" "hd (replace_spaces (trim s)) = hd (trim s)"
    "last (replace_spaces (trim s)) = last (trim s)"
    using replace_spaces_hd[OF assms 1(1)] replace_spaces_last[OF assms 1(2)] by simp_all
  have 3: "replace_dots (replace_spaces (trim s)) \<noteq> []"
    "hd (replace_dots (replace_spaces (trim s))) = hd (trim s)"
    "\<not> isSpace (last (replace_dots (replace_spaces (trim s))))"
    using replace_dots_hd[OF 2(1)] replace_dots_last[OF 2(1)] 2(2,3) 1(2) by simp_all
  show ?thesis using 3 1(1) by (intro trimmedI) simp_all
qed

lemma acceptSummary_trimmed:
  assumes "acceptSummary rt text v = Inr (Some x)"
  shows "trim x = x"
proof -
  obtain s where v: "v = JStr s" and long: "50 < length (trim s)"
    using assms by (cases v) (auto simp: acceptSummary_def split: if_splits)
  then have ne: "trim s \<noteq> []" by auto
  let ?c = "replace_dots (replace_spaces (trim s))"
  have "x = ?c \<or> x = extractiveSummary rt text"
    using assms v long by (auto simp: acceptSummary_def Let_def split: if_splits)
  then show ?thesis using cleaned_trimmed[OF ne] extractiveSummary_trimmed by auto
qed

lemma summarizeWith_trimmed:
  "summarizeWith rt text wordCount models s = (x, s') \<Longrightarrow> trim x = x"
proof (induction models arbitrary: s)
  case Nil
  then show ?case by (auto simp: extractiveSummary_trimmed)
next
  case (Cons model rest)
  then show ?case
    by (auto simp: extractiveSummary_trimmed acceptSummary_trimmed
        split: prod.splits sum.splits option.splits if_splits)
qed

lemma summarizeText_trimmed:
  "summarizeText rt text s = (Inr x, s') \<Longrightarrow> trim x = x"
  by (auto simp: summarizeText_def Let_def extractiveSummary_trimmed summarizeWith_trimmed
      split: if_splits prod.splits)

lemma summarizeSections_trimmed:
  "summarizeSections rt chunks s = (summaries, s') \<Longrightarrow> x \<in> set summaries \<Longrightarrow> trim x = x \<and> x \<noteq> []"
proof (induction chunks arbitrary: s summaries)
  case Nil
  then show ?case by simp
next
  case (Cons chunk rest)
  then show ?case
    by (auto simp: summarizeText_trimmed split: prod.splits sum.splits if_splits)
qed

lemma join_ends:
  assumes "xs \<noteq> []" "\<forall>x \<in> set xs. x \<noteq> []"
  shows "join sep xs \<noteq> [] \<and> hd (join sep xs) = hd (hd xs) \<and> last (join sep xs) = last (last xs)"
  using assms
proof (induction xs)
  case Nil
  then show ?case by simp
next
  case (Cons x xs)
  then show ?case by (cases "xs = []") (auto simp: join_Cons)
qed

lemma join_trimmed:
  assumes "xs \<noteq> []" "\<forall>x \<in> set xs. trim x = x \<and> x \<noteq> []"
  shows "trim (join sep xs) = join sep xs" and "join sep xs \<noteq> []"
proof -
  have ne: "\<forall>x \<in> set xs. x \<noteq> []" using assms(2) by blast
  have "hd xs \<in> set xs" "last xs \<in> set xs" using assms(1) by simp_all
  then have "\<not> isSpace (hd (hd xs))" "\<not> isSpace (last (last xs))"
    using assms(2) trimmedD by blast+
  with join_ends[OF assms(1) ne, of sep] show "trim (join sep xs) = join sep xs"
    by (intro trimmedI) simp_all
  show "join sep xs \<noteq> []" using join_ends[OF assms(1) ne] by blast
qed

section \<open>The chunks of a long document\<close>

subsection \<open>The chunks of a long document\<close>

lemma chunkText_many:
  assumes "trim text \<noteq> []" "0 < n" "n < length (split_runs isSpace text)"
  shows "\<exists>chunks. chunkText text n = Some (Inr chunks)
           \<and> length chunks = (length (split_runs isSpace text) + n - 1) div n
           \<and> (\<forall>k < length chunks.
                 chunks ! k = join [32] (take n (drop (k * n) (split_runs isSpace text))))"
proof -
  let ?words = "split_runs isSpace text"
  have nonblank: "\<not> (text = [] \<or> length (trim text) = 0)" using assms(1) blank_iff by blast
  from chunkText_loop_chunks[OF assms(2), of ?words 0 "[]"]
  obtain cs where cs: "chunkText_loop ?words n 0 [] = Some cs"
      "length cs = (length ?words + n - 1) div n"
      "\<forall>k < length cs. cs ! k = join (str '' '') (take n (drop (k * n) ?words))"
    by auto
  have "chunkText text n = Some (Inr cs)"
    using assms(3) nonblank cs(1) by (simp add: chunkText_def Let_def)
  with cs(2,3) show ?thesis by auto
qed

lemma join_eq_Nil: "join [d] ws = [] \<Longrightarrow> ws = [] \<or> ws = [[]]"
  by (cases ws) (auto simp: join_Cons split: if_splits)

lemma split_runs_last_not_Nil:
  "s \<noteq> [] \<Longrightarrow> \<not> sep (last s) \<Longrightarrow> last (split_runs sep s) \<noteq> []"
proof (induction sep s rule: split_runs.induct)
  case (1 sep)
  then show ?case by simp
next
  case (2 sep c cs)
  show ?case
  proof (cases "sep c")
    case True
    with "2.prems" have cs: "cs \<noteq> []" "\<not> sep (last cs)" by (auto split: if_splits)
    let ?d = "dropWhile sep cs"
    have d: "?d \<noteq> []" using cs by (metis dropWhile_eq_Nil_conv last_in_set)
    then have "last ?d = last cs"
      by (metis append_Nil2 last_appendR takeWhile_dropWhile_id)
    with "2.IH"(1)[OF True d] cs(2) True show ?thesis by simp
  next
    case False
    obtain v vs where split: "split_runs sep cs = v # vs"
      by (cases "split_runs sep cs") auto
    show ?thesis
    proof (cases "cs = []")
      case True
      with False show ?thesis by simp
    next
      case ne: False
      with "2.prems" have "\<not> sep (last cs)" by simp
      with "2.IH"(2)[OF False ne] have "last (v # vs) \<noteq> []" using split by simp
      with False split show ?thesis by (cases vs) auto
    qed
  qed
qed


text \<open>What \<open>chunkText\<close> and \<open>priorityChunks\<close> give for a document of more than 3000 words.\<close>

lemma long_document_chunks:
  assumes "trim text \<noteq> []" "3000 < length (split_runs isSpace text)"
  shows "\<exists>chunks. chunkText text 1000 = Some (Inr chunks)
           \<and> length chunks = (length (split_runs isSpace text) + 999) div 1000
           \<and> 4 \<le> length chunks
           \<and> chunks ! 0 = join [32] (take 1000 (split_runs isSpace text))
           \<and> chunks ! 0 \<noteq> [] \<and> chunks ! (length chunks div 2) \<noteq> []
           \<and> (\<not> isSpace (last text) \<longrightarrow> chunks ! (length chunks - 1) \<noteq> [])"
proof -
  let ?words = "split_runs isSpace text"
  have n: "(0::nat) < 1000" "1000 < length ?words" using assms(2) by simp_all
  from chunkText_many[OF assms(1) n]
  obtain chunks where run: "chunkText text 1000 = Some (Inr chunks)"
    and len: "length chunks = (length ?words + 999) div 1000"
    and nth: "\<forall>k < length chunks. chunks ! k = join [32] (take 1000 (drop (k * 1000) ?words))"
    by auto
  have four: "4 \<le> length chunks" using len assms(2) by simp
  then have pos: "0 < length chunks" "chunks \<noteq> []" by auto
  have less: "(length chunks - 1) * 1000 < length ?words"
    using ceil_div_gt[of "length chunks - 1" "length ?words" 1000] four len by simp
  have full: "chunks ! k \<noteq> []" if "Suc k < length chunks" for k
  proof -
    have "Suc k * 1000 \<le> (length chunks - 1) * 1000" using that by simp
    then have "k * 1000 + 1000 \<le> length ?words" using less by simp
    then have "length (take 1000 (drop (k * 1000) ?words)) = 1000" by simp
    then have "1000 \<le> length (join [32] (take 1000 (drop (k * 1000) ?words))) + 1"
      using length_join_ge[of "take 1000 (drop (k * 1000) ?words)" 32] by simp
    then show ?thesis using nth[rule_format, of k] that by auto
  qed
  have zero: "chunks ! 0 = join [32] (take 1000 ?words)" using nth[rule_format, of 0] pos by simp
  have first: "chunks ! 0 \<noteq> []" using full[of 0] four by simp
  have middle: "chunks ! (length chunks div 2) \<noteq> []" using full[of "length chunks div 2"] four by simp
  have final: "chunks ! (length chunks - 1) \<noteq> []" if "\<not> isSpace (last text)"
  proof
    let ?k = "length chunks - 1"
    let ?ws = "take 1000 (drop (?k * 1000) ?words)"
    assume "chunks ! ?k = []"
    then have "join [32] ?ws = []" using nth[rule_format, of ?k] four by simp
    then have "?ws = [] \<or> ?ws = [[]]" by (rule join_eq_Nil)
    moreover have ne: "?ws \<noteq> []" using less by simp
    ultimately have ws: "?ws = [[]]" by blast
    have "text \<noteq> []" using assms(1) by auto
    then have "last ?words \<noteq> []" using that by (rule split_runs_last_not_Nil)
    moreover have "length ?words - ?k * 1000 \<le> 1000"
      using len by simp
    then have "?ws = drop (?k * 1000) ?words" by simp
    then have "last ?ws = last ?words" using less by simp
    ultimately show False using ws by simp
  qed
  from run len four zero first middle final show ?thesis by blast
qed


section \<open>The priority chunks\<close>

lemma split_runs_blank: "\<forall>c \<in> set s. sep c \<Longrightarrow> length (split_runs sep s) \<le> 2"
proof (cases s)
  case Nil
  then show ?thesis by simp
next
  case (Cons c cs)
  assume all: "\<forall>c \<in> set s. sep c"
  with Cons have c: "sep c" by simp
  have d: "dropWhile sep cs = []" using all Cons by (metis dropWhile_eq_Nil_conv list.set_intros(2))
  have "split_runs sep (c # cs) = [] # split_runs sep (dropWhile sep cs)" using c by simp
  then have "split_runs sep (c # cs) = [[], []]" unfolding d by simp
  with Cons show ?thesis by simp
qed

lemma many_words_not_blank: "2 < length (split_runs isSpace t) \<Longrightarrow> trim t \<noteq> []"
  using split_runs_blank[of t isSpace] trim_eq_Nil_iff[of t] by fastforce






section \<open>The summary stage\<close>

subsection \<open>The summary stage\<close>


lemma ensureMinimumQuality_replaces:
  assumes "trim fs = fs" "length fs < 100" "length fs < length (extractiveSummary rt t)"
  shows "trim (ensureMinimumQuality rt t fs) = extractiveSummary rt t"
  using assms by (simp add: ensureMinimumQuality_def Let_def extractiveSummary_trimmed)

lemma summaryStage_trimmed:
  assumes "summaryStage rt t s = Some (Inr fs, s1)"
  shows "trim fs = fs"
proof (cases "3000 < length (split_runs isSpace t)")
  case False
  with assms have "summarizeText rt t s = (Inr fs, s1)" by (simp add: summaryStage_def Let_def)
  then show ?thesis by (rule summarizeText_trimmed)
next
  case True
  then obtain chunks where chunks: "chunkText t 1000 = Some (Inr chunks)"
    using long_document_chunks[OF many_words_not_blank, of t] by auto
  obtain summaries s2 where sec: "summarizeSections rt (priorityChunks chunks) s = (summaries, s2)"
    by (cases "summarizeSections rt (priorityChunks chunks) s")
  let ?combined = "join (str ''\<newline>\<newline>'') summaries"
  from assms True chunks sec
  have "(summaries \<noteq> [] \<and> 500 < length ?combined \<and> summarizeText rt ?combined s2 = (Inr fs, s1))
      \<or> (summaries \<noteq> [] \<and> fs = ?combined)
      \<or> (summarizeText rt (take 3000 t) s2 = (Inr fs, s1))"
    by (auto simp: summaryStage_def Let_def split: if_splits)
  then show ?thesis
    using summarizeText_trimmed join_trimmed(1) summarizeSections_trimmed[OF sec] by blast
qed




subsection \<open>processDocument\<close>


lemma processDocument_after_summary:
  assumes "trim t \<noteq> []" "summaryStage rt t s = Some (Inr fs, s1)"
  shows "\<exists>ms s2. generateMCQs rt t s1 = (Inr ms, s2)
           \<and> processDocument rt t s
               = Some (Inr \<lparr>summary = trim (ensureMinimumQuality rt t fs), mcqs = take 5 ms\<rparr>, s2)"
proof -
  have nb: "\<not> (t = [] \<or> length (trim t) = 0)" using assms(1) blank_iff by blast
  obtain ms s2 where "generateMCQs rt t s1 = (Inr ms, s2)"
    using generateMCQs_total[OF assms(1)] by blast
  with nb assms(2) show ?thesis by (simp add: processDocument_def)
qed



section \<open>The result of processDocument\<close>

subsection \<open>The result of processDocument\<close>













section \<open>The summary floor\<close>

subsection \<open>The summary floor\<close>

lemma request_summaryRuntime:
  "request summaryRuntime model input params w
     = (Inr (JArr [JObj [(str ''summary_text'', JStr briefSummary)]]), Suc w)"
  by (simp add: request_def hfAxios_post_def summaryRuntime_def fixedRuntime_def checkResponse_def
      optField_def)

lemma callHuggingFace_summaryRuntime:
  "callHuggingFace summaryRuntime model input params (hfCircuitBreaker 0, w)
     = (Inr (JArr [JObj [(str ''summary_text'', JStr briefSummary)]]), (hfCircuitBreaker 0, Suc w))"
  by (simp add: callHuggingFace_def execute_def retryOnCondition_def retryOnCondition_from.simps
      request_summaryRuntime hfCircuitBreaker_def new_CircuitBreaker_def onSuccess_def)

lemma summaryOf_briefSummary:
  "summaryOf (JArr [JObj [(str ''summary_text'', JStr briefSummary)]]) = Inr (JStr briefSummary)"
  by (simp add: summaryOf_def optField_def briefSummary_def str_def)

lemma acceptSummary_briefSummary:
  "acceptSummary rt t (JStr briefSummary)
     = Inr (Some (str ''Sorting is a common problem in computing''))"
  by (simp add: acceptSummary_def briefSummary_def str_def trim_def isSpace_def isSentenceEnd_def Let_def)

lemma summarizeText_summaryRuntime:
  assumes "trim t \<noteq> []" "500 \<le> length (split_runs isSpace t)"
  shows "summarizeText summaryRuntime t (hfCircuitBreaker 0, w)
           = (Inr (str ''Sorting is a common problem in computing''), (hfCircuitBreaker 0, Suc w))"
proof -
  have nb: "\<not> (t = [] \<or> length (trim t) = 0)" using assms(1) blank_iff by blast
  show ?thesis using nb assms(2)
    by (simp add: summarizeText_def Let_def summarizationModels_def callHuggingFace_summaryRuntime
        summaryOf_briefSummary acceptSummary_briefSummary)
qed

text \<open>
  C9: whenever the summary stage of \<open>processDocument\<close>, on either path, yields a summary of
  fewer than 100 characters and the deterministic composer's output for the document is
  longer, the summary of the result is the composer's output. The stage always yields a
  trimmed string, so the trimmed length that the floor is tested on and the length that is
  compared with the composer's output are the same.
\<close>

theorem short_summary_is_replaced:
  assumes "trim text \<noteq> []"
    and "summaryStage rt text s = Some (Inr finalSummary, s1)"
    and "length finalSummary < 100"
    and "length finalSummary < length (createStructuredSummary rt (extractKeyInformation rt text))"
  shows "\<exists>ms s2. processDocument rt text s
           = Some (Inr \<lparr>summary = createStructuredSummary rt (extractKeyInformation rt text),
                        mcqs = ms\<rparr>, s2)"
proof -
  have trimmed: "trim finalSummary = finalSummary" using assms(2) by (rule summaryStage_trimmed)
  have "trim (ensureMinimumQuality rt text finalSummary) = extractiveSummary rt text"
    using trimmed assms(3,4) by (intro ensureMinimumQuality_replaces) (simp_all add: extractiveSummary_def)
  then show ?thesis
    using processDocument_after_summary[OF assms(1,2)] by (auto simp: extractiveSummary_def)
qed

theorem short_summary_is_replaced_witness:
  "trim (words_of_a 500) \<noteq> []
   \<and> summaryStage summaryRuntime (words_of_a 500) (hfCircuitBreaker 0, 0)
       = Some (Inr (str ''Sorting is a common problem in computing''), (hfCircuitBreaker 0, 1))
   \<and> length (str ''Sorting is a common problem in computing'') = 40
   \<and> 40 < length (createStructuredSummary summaryRuntime (extractKeyInformation summaryRuntime (words_of_a 500)))
   \<and> (\<exists>ms s2. processDocument summaryRuntime (words_of_a 500) (hfCircuitBreaker 0, 0)
           = Some (Inr \<lparr>summary = createStructuredSummary summaryRuntime
                                     (extractKeyInformation summaryRuntime (words_of_a 500)),
                        mcqs = ms\<rparr>, s2))"
proof -
  let ?brief = "str ''Sorting is a common problem in computing''"
  let ?E = "createStructuredSummary summaryRuntime (extractKeyInformation summaryRuntime (words_of_a 500))"
  have nb: "trim (words_of_a 500) \<noteq> []" by (simp add: trim_words_of_a)
  have words: "split_runs isSpace (words_of_a 500) = replicate 500 (str ''a'')"
    by (simp add: split_runs_words_of_a)
  have stage: "summaryStage summaryRuntime (words_of_a 500) (hfCircuitBreaker 0, 0)
       = Some (Inr ?brief, (hfCircuitBreaker 0, 1))"
    using summarizeText_summaryRuntime[OF nb, of 0] by (simp add: summaryStage_def Let_def words)
  have len: "length ?brief = 40" by (simp add: str_def)
  have "50 < length (extractiveSummary summaryRuntime (join [32] (replicate 500 (str ''a''))))"
    by (rule extractiveSummary_words_long(1)) (simp_all add: str_def isSpace_def)
  then have long: "40 < length ?E" by (simp add: extractiveSummary_def words_of_a_def)
  from short_summary_is_replaced[OF nb stage] len long
  have "\<exists>ms s2. processDocument summaryRuntime (words_of_a 500) (hfCircuitBreaker 0, 0)
           = Some (Inr \<lparr>summary = ?E, mcqs = ms\<rparr>, s2)" by simp
  with nb stage len long show ?thesis by (intro conjI)
qed

end
